theory Spec2Isabelle
  imports Complex_Main
begin

section \<open>GroupQueue (src/nanoclaw/group\_queue.py)\<close>

text \<open>
  The queue is a Python object driven by a single-threaded asyncio event loop.  Its fields
  are modelled by a record; the dictionary \<open>_groups\<close> is a map from chat id to the
  per-group state.  A queued task is represented by its id (its callback \<open>fn\<close> is opaque).

  \<open>asyncio.create_task(coro)\<close> (here \<open>asyncio_create_task\<close>) does not run any part of
  \<open>coro\<close>: it wraps the coroutine in a task whose first step is scheduled with \<open>call_soon\<close> and runs at a later
  iteration of the loop, after the caller has reached its own suspension point.  The model
  therefore keeps two lists next to the fields of the queue: \<open>created\<close>, the coroutines
  handed to it whose body has not begun (in creation order, the order in which the loop
  begins them), and \<open>running\<close>, the coroutines that have begun and are suspended
  at their \<open>await\<close>.
\<close>

type_synonym chat_id = string
type_synonym task_id = string

record group_state =
  active :: bool
  pending_messages :: bool
  pending_tasks :: "task_id list"
  process :: "nat option"
  container_name :: "string option"
  group_folder :: "string option"
  retry_count :: nat

definition new_group_state :: group_state where
  "new_group_state =
     \<lparr>active = False, pending_messages = False, pending_tasks = [], process = None,
      container_name = None, group_folder = None, retry_count = 0\<rparr>"

datatype coro =
    RunForGroup chat_id
  | RunTask chat_id task_id
  | Retry rat chat_id

record queue_state =
  groups :: "chat_id \<rightharpoonup> group_state"
  active_count :: int
  waiting :: "chat_id list"
  process_messages_fn :: bool
  shutting_down :: bool
  created :: "coro list"
  running :: "coro list"

definition init_queue :: queue_state where
  "init_queue =
     \<lparr>groups = Map.empty, active_count = 0, waiting = [], process_messages_fn = False,
      shutting_down = False, created = [], running = []\<rparr>"

definition MAX_RETRIES :: nat where
  "MAX_RETRIES = 5"

definition BASE_RETRY_SECONDS :: rat where
  "BASE_RETRY_SECONDS = 5"

text \<open>\<open>_get_group\<close>: the state of a group, created on first use.\<close>

definition get_group :: "chat_id \<Rightarrow> queue_state \<Rightarrow> queue_state" where
  "get_group c q =
     (case groups q c of
        None \<Rightarrow> q\<lparr>groups := (groups q)(c \<mapsto> new_group_state)\<rparr>
      | Some _ \<Rightarrow> q)"

definition state_of :: "queue_state \<Rightarrow> chat_id \<Rightarrow> group_state" where
  "state_of q c = (case groups q c of None \<Rightarrow> new_group_state | Some s \<Rightarrow> s)"

definition put_state :: "chat_id \<Rightarrow> group_state \<Rightarrow> queue_state \<Rightarrow> queue_state" where
  "put_state c s q = q\<lparr>groups := (groups q)(c \<mapsto> s)\<rparr>"

definition set_process_messages_fn :: "queue_state \<Rightarrow> queue_state" where
  "set_process_messages_fn q = q\<lparr>process_messages_fn := True\<rparr>"

text \<open>\<open>register_process\<close>: the running worker of a group, recorded for outside control.\<close>

definition register_process ::
  "chat_id \<Rightarrow> nat \<Rightarrow> string \<Rightarrow> string option \<Rightarrow> queue_state \<Rightarrow> queue_state" where
  "register_process c proc name folder_opt q =
     (let q1 = get_group c q; st = state_of q1 c in
      put_state c
        (st\<lparr>process := Some proc, container_name := Some name,
            group_folder := (case folder_opt of
                               None \<Rightarrow> group_folder st
                             | Some f \<Rightarrow> if f = [] then group_folder st else Some f)\<rparr>) q1)"

definition asyncio_create_task :: "coro \<Rightarrow> queue_state \<Rightarrow> queue_state" where
  "asyncio_create_task k q = q\<lparr>created := created q @ [k]\<rparr>"

definition append_waiting :: "chat_id \<Rightarrow> queue_state \<Rightarrow> queue_state" where
  "append_waiting c q =
     (if c \<in> set (waiting q) then q else q\<lparr>waiting := waiting q @ [c]\<rparr>)"

definition enqueue_message_check :: "int \<Rightarrow> chat_id \<Rightarrow> queue_state \<Rightarrow> queue_state" where
  "enqueue_message_check cap c q =
     (if shutting_down q then q
      else
        let q1 = get_group c q; st = state_of q1 c in
        if active st then put_state c (st\<lparr>pending_messages := True\<rparr>) q1
        else if active_count q1 \<ge> cap then
          append_waiting c (put_state c (st\<lparr>pending_messages := True\<rparr>) q1)
        else asyncio_create_task (RunForGroup c) q1)"

definition enqueue_task :: "int \<Rightarrow> chat_id \<Rightarrow> task_id \<Rightarrow> queue_state \<Rightarrow> queue_state" where
  "enqueue_task cap c t q =
     (if shutting_down q then q
      else
        let q1 = get_group c q; st = state_of q1 c in
        if t \<in> set (pending_tasks st) then q1
        else if active st then put_state c (st\<lparr>pending_tasks := pending_tasks st @ [t]\<rparr>) q1
        else if active_count q1 \<ge> cap then
          append_waiting c (put_state c (st\<lparr>pending_tasks := pending_tasks st @ [t]\<rparr>) q1)
        else asyncio_create_task (RunTask c t) q1)"

text \<open>
  \<open>_schedule_retry\<close>.  The coroutine \<open>_retry\<close> it creates sleeps for \<open>delay\<close> seconds and
  then calls \<open>enqueue_message_check\<close>; it is recorded as \<open>Retry delay chat_id\<close>.
\<close>

definition schedule_retry :: "chat_id \<Rightarrow> queue_state \<Rightarrow> queue_state" where
  "schedule_retry c q =
     (let st = state_of q c; rc = retry_count st + 1 in
      if rc > MAX_RETRIES then put_state c (st\<lparr>retry_count := 0\<rparr>) q
      else
        asyncio_create_task (Retry (BASE_RETRY_SECONDS * 2 ^ (rc - 1)) c)
          (put_state c (st\<lparr>retry_count := rc\<rparr>) q))"

text \<open>\<open>_drain_waiting\<close>: the \<open>while\<close> loop pops the head of \<open>_waiting\<close> at each turn.\<close>

definition drain_waiting_body :: "chat_id \<Rightarrow> queue_state \<Rightarrow> queue_state" where
  "drain_waiting_body next_id q =
     (let q1 = get_group next_id q; st = state_of q1 next_id in
      case pending_tasks st of
        t # ts \<Rightarrow> asyncio_create_task (RunTask next_id t) (put_state next_id (st\<lparr>pending_tasks := ts\<rparr>) q1)
      | [] \<Rightarrow> if pending_messages st then asyncio_create_task (RunForGroup next_id) q1 else q1)"

function drain_waiting :: "int \<Rightarrow> queue_state \<Rightarrow> queue_state" where
  "drain_waiting cap q =
     (case waiting q of
        [] \<Rightarrow> q
      | next_id # rest \<Rightarrow>
          if active_count q < cap
          then drain_waiting cap (drain_waiting_body next_id (q\<lparr>waiting := rest\<rparr>))
          else q)"
  by pat_completeness auto

termination drain_waiting
  by (relation "measure (\<lambda>(cap, q). length (waiting q))")
    (simp_all add: drain_waiting_body_def get_group_def put_state_def asyncio_create_task_def Let_def
      split: option.splits list.splits)

declare drain_waiting.simps [simp del]

definition drain_group :: "int \<Rightarrow> chat_id \<Rightarrow> queue_state \<Rightarrow> queue_state" where
  "drain_group cap c q =
     (if shutting_down q then q
      else
        let q1 = get_group c q; st = state_of q1 c in
        case pending_tasks st of
          t # ts \<Rightarrow> asyncio_create_task (RunTask c t) (put_state c (st\<lparr>pending_tasks := ts\<rparr>) q1)
        | [] \<Rightarrow>
            if pending_messages st then asyncio_create_task (RunForGroup c) q1
            else drain_waiting cap q1)"

text \<open>
  The coroutines \<open>_run_for_group\<close> and \<open>_run_task\<close> are split at their \<open>await\<close>.
  The part before it marks the group active and counts it; the part after it is entered
  with the outcome of the awaited callback and ends with the \<open>finally\<close> block.
\<close>

datatype outcome = Success | Failure | Raised

definition finally_block :: "int \<Rightarrow> chat_id \<Rightarrow> queue_state \<Rightarrow> queue_state" where
  "finally_block cap c q =
     (let st = state_of q c;
          q1 = put_state c
                 (st\<lparr>active := False, process := None, container_name := None,
                     group_folder := None\<rparr>) q
      in drain_group cap c (q1\<lparr>active_count := active_count q1 - 1\<rparr>))"

definition run_for_group_begin :: "chat_id \<Rightarrow> queue_state \<Rightarrow> queue_state" where
  "run_for_group_begin c q =
     (let q1 = get_group c q; st = state_of q1 c;
          q2 = put_state c (st\<lparr>active := True, pending_messages := False\<rparr>) q1
      in q2\<lparr>active_count := active_count q2 + 1\<rparr>)"

definition run_for_group_end :: "int \<Rightarrow> chat_id \<Rightarrow> outcome \<Rightarrow> queue_state \<Rightarrow> queue_state" where
  "run_for_group_end cap c r q =
     finally_block cap c
       (case r of
          Success \<Rightarrow> put_state c ((state_of q c)\<lparr>retry_count := 0\<rparr>) q
        | Failure \<Rightarrow> schedule_retry c q
        | Raised \<Rightarrow> schedule_retry c q)"

definition run_task_begin :: "chat_id \<Rightarrow> queue_state \<Rightarrow> queue_state" where
  "run_task_begin c q =
     (let q1 = get_group c q; st = state_of q1 c;
          q2 = put_state c (st\<lparr>active := True\<rparr>) q1
      in q2\<lparr>active_count := active_count q2 + 1\<rparr>)"

definition run_task_end :: "int \<Rightarrow> chat_id \<Rightarrow> queue_state \<Rightarrow> queue_state" where
  "run_task_end cap c q = finally_block cap c q"

definition retry_end :: "int \<Rightarrow> chat_id \<Rightarrow> queue_state \<Rightarrow> queue_state" where
  "retry_end cap c q = (if shutting_down q then q else enqueue_message_check cap c q)"

text \<open>
  The event loop.  \<open>Begin\<close> runs the oldest created coroutine up to its \<open>await\<close>
  (with no \<open>_process_messages_fn\<close> set, \<open>_run_for_group\<close> has nothing to await and runs
  through its \<open>finally\<close> block at once).  \<open>Finish i r\<close> resumes the \<open>i\<close>-th suspended
  coroutine with outcome \<open>r\<close>.  The two enqueue events are calls made by other coroutines
  of the program (the message loop, the scheduler loop), \<open>Shutdown\<close> is \<open>shutdown\<close>.
\<close>

definition shutdown :: "queue_state \<Rightarrow> queue_state" where
  "shutdown q = q\<lparr>shutting_down := True\<rparr>"

datatype event =
    EnqueueMessageCheck chat_id
  | EnqueueTask chat_id task_id
  | Begin
  | Finish nat outcome
  | Shutdown

definition begin_coro :: "int \<Rightarrow> coro \<Rightarrow> queue_state \<Rightarrow> queue_state" where
  "begin_coro cap k q =
     (case k of
        RunForGroup c \<Rightarrow>
          if process_messages_fn q
          then (run_for_group_begin c q)\<lparr>running := running q @ [k]\<rparr>
          else finally_block cap c (run_for_group_begin c q)
      | RunTask c t \<Rightarrow> (run_task_begin c q)\<lparr>running := running q @ [k]\<rparr>
      | Retry d c \<Rightarrow> q\<lparr>running := running q @ [k]\<rparr>)"

definition finish_coro :: "int \<Rightarrow> coro \<Rightarrow> outcome \<Rightarrow> queue_state \<Rightarrow> queue_state" where
  "finish_coro cap k r q =
     (case k of
        RunForGroup c \<Rightarrow> run_for_group_end cap c r q
      | RunTask c t \<Rightarrow> run_task_end cap c q
      | Retry d c \<Rightarrow> retry_end cap c q)"

definition remove_nth :: "nat \<Rightarrow> 'a list \<Rightarrow> 'a list" where
  "remove_nth i xs = take i xs @ drop (Suc i) xs"

definition step :: "int \<Rightarrow> queue_state \<Rightarrow> event \<Rightarrow> queue_state" where
  "step cap q e =
     (case e of
        EnqueueMessageCheck c \<Rightarrow> enqueue_message_check cap c q
      | EnqueueTask c t \<Rightarrow> enqueue_task cap c t q
      | Begin \<Rightarrow>
          (case created q of
             [] \<Rightarrow> q
           | k # ks \<Rightarrow> begin_coro cap k (q\<lparr>created := ks\<rparr>))
      | Finish i r \<Rightarrow>
          (if i < length (running q)
           then finish_coro cap (running q ! i) r (q\<lparr>running := remove_nth i (running q)\<rparr>)
           else q)
      | Shutdown \<Rightarrow> shutdown q)"

definition run_events :: "int \<Rightarrow> queue_state \<Rightarrow> event list \<Rightarrow> queue_state" where
  "run_events cap q es = foldl (step cap) q es"

text \<open>The units of work in flight for one group: its begun, unfinished coroutines.\<close>

fun unit_of :: "coro \<Rightarrow> chat_id option" where
  "unit_of (RunForGroup c) = Some c"
| "unit_of (RunTask c t) = Some c"
| "unit_of (Retry d c) = None"

definition active_units :: "queue_state \<Rightarrow> coro list" where
  "active_units q = filter (\<lambda>k. unit_of k \<noteq> None) (running q)"

definition active_units_of :: "chat_id \<Rightarrow> queue_state \<Rightarrow> coro list" where
  "active_units_of c q = filter (\<lambda>k. unit_of k = Some c) (running q)"

text \<open>
  Observations used in the statements below: the coroutines a call has handed to
  \<open>asyncio.create_task\<close>, and the retry timers among them.
\<close>

definition new_coros :: "queue_state \<Rightarrow> queue_state \<Rightarrow> coro list" where
  "new_coros q q' = drop (length (created q)) (created q')"

fun is_retry :: "coro \<Rightarrow> bool" where
  "is_retry (Retry d c) = True"
| "is_retry _ = False"

text \<open>
  Schedules of the event loop used as concrete inputs.  \<open>burst_trace\<close>: three groups are
  enqueued by one caller with no suspension point in between (the \<open>for\<close> loop of the message
  loop does this), then the loop begins the coroutines.  \<open>waiting_trace\<close>: every created
  coroutine begins before the next call; two groups wait at the cap, then one unit finishes.
  \<open>same_group_trace\<close>: two due tasks of one group are enqueued by one pass of the scheduler
  loop.  \<open>shutdown_trace\<close>: a group with a queued task and a pending message check finishes
  its unit of work after \<open>shutdown\<close>.  \<open>queued_at_shutdown\<close>: at \<open>shutdown\<close> two groups
  are at work, one of them with a queued task, and a third waits at the cap.
  \<open>failure_round\<close>: a message check begins and fails,
  its retry timer begins to sleep and fires.
\<close>

definition queue0 :: queue_state where
  "queue0 = set_process_messages_fn init_queue"

definition burst_trace :: "event list" where
  "burst_trace =
     [EnqueueMessageCheck ''g1'', EnqueueMessageCheck ''g2'', EnqueueMessageCheck ''g3'',
      Begin, Begin, Begin]"

definition waiting_trace :: "event list" where
  "waiting_trace =
     [EnqueueMessageCheck ''g1'', Begin, EnqueueMessageCheck ''g2'', Begin,
      EnqueueMessageCheck ''g3'', EnqueueMessageCheck ''g4'', Finish 0 Success, Begin, Begin]"

definition same_group_trace :: "event list" where
  "same_group_trace = [EnqueueTask ''g1'' ''t1'', EnqueueTask ''g1'' ''t2'', Begin, Begin]"

definition busy_trace :: "event list" where
  "busy_trace =
     [EnqueueMessageCheck ''g1'', Begin, EnqueueTask ''g1'' ''t1'', EnqueueMessageCheck ''g1'']"

definition shutdown_trace :: "event list" where
  "shutdown_trace = busy_trace @ [Shutdown, Finish 0 Success]"

definition queued_at_shutdown :: "event list" where
  "queued_at_shutdown =
     [EnqueueMessageCheck ''g1'', Begin, EnqueueMessageCheck ''g2'', Begin,
      EnqueueMessageCheck ''g3'', EnqueueTask ''g1'' ''t1'', Shutdown]"

definition failure_round :: "event list" where
  "failure_round = [Begin, Finish 0 Failure, Begin, Finish 0 Success]"

definition after_failures :: "nat \<Rightarrow> queue_state" where
  "after_failures k =
     run_events 2 queue0
       (EnqueueMessageCheck ''g1'' # concat (replicate k failure_round) @ [Begin, Finish 0 Failure])"

section \<open>IPC requests and the job store (src/nanoclaw/ipc.py, db.py, task\_scheduler.py)\<close>

text \<open>
  A registered group and a row of the table \<open>scheduled_tasks\<close>.  The fields \<open>id\<close>,
  \<open>group_folder\<close>, \<open>chat_id\<close> and \<open>name\<close> are written \<open>tid\<close>, \<open>task_group_folder\<close>,
  \<open>task_chat_id\<close> and \<open>rg_name\<close>.  The fields of a group that the IPC code does not read
  (\<open>requires_trigger\<close>, \<open>container_config\<close>) are left out.
\<close>

record registered_group =
  rg_name :: string
  folder :: string
  trigger :: string
  added_at :: string

record scheduled_task =
  tid :: string
  task_group_folder :: string
  task_chat_id :: string
  prompt :: string
  schedule_type :: string
  schedule_value :: string
  context_mode :: string
  next_run :: "string option"
  status :: string
  created_at :: string
  last_run :: "string option"
  last_result :: "string option"

text \<open>
  What the code takes from outside the repository at the moment of a call: \<open>croniter\<close>
  (\<open>croniter_next v\<close> is the ISO form of \<open>croniter(v).get_next\<close>, \<open>None\<close> when \<open>croniter\<close>
  raises \<open>ValueError\<close> or \<open>KeyError\<close>), Python's \<open>int\<close> on a string (\<open>None\<close> when it raises
  \<open>ValueError\<close>), the timestamp \<open>ms\<close> milliseconds from now (\<open>None\<close> when
  \<open>datetime.fromtimestamp\<close> cannot represent it and raises), \<open>datetime.fromisoformat\<close>
  followed by \<open>isoformat\<close> (\<open>None\<close> when it raises \<open>ValueError\<close>), the generated task id
  and the current time.
\<close>

record env =
  croniter_next :: "string \<Rightarrow> string option"
  py_int :: "string \<Rightarrow> int option"
  timestamp_after_ms :: "int \<Rightarrow> string option"
  fromisoformat :: "string \<Rightarrow> string option"
  new_task_id :: string
  now_iso :: string

datatype ipc_error = ValueError | RangeError | IntegrityError

record ipc_state =
  tasks :: "scheduled_task list"
  registered :: "(chat_id \<times> registered_group) list"

text \<open>
  A request is the dictionary read from a mailbox file.  The fields read here are JSON
  strings or absent, which is what the writer in the worker (\<open>ipc_mcp_stdio.py\<close>)
  produces; \<open>truthy\<close> is Python's truth value of such a field and \<open>py_or\<close> its \<open>or\<close>.
\<close>

type_synonym ipc_data = "string \<rightharpoonup> string"

definition MAIN_GROUP_FOLDER :: string where
  "MAIN_GROUP_FOLDER = ''main''"

definition truthy :: "string option \<Rightarrow> bool" where
  "truthy v = (case v of None \<Rightarrow> False | Some s \<Rightarrow> s \<noteq> [])"

definition py_or :: "string option \<Rightarrow> string option \<Rightarrow> string option" where
  "py_or a b = (if truthy a then a else b)"

text \<open>
  The store operations of \<open>db.py\<close>.  \<open>id\<close> is the primary key of the table, so an
  \<open>INSERT\<close> of an id that is present raises \<open>IntegrityError\<close>.
\<close>

definition create_task :: "scheduled_task \<Rightarrow> scheduled_task list \<Rightarrow> ipc_error + scheduled_task list" where
  "create_task t db =
     (if tid t \<in> set (map tid db) then Inl IntegrityError
      else Inr (db @ [t\<lparr>context_mode := (if context_mode t = [] then ''isolated'' else context_mode t)\<rparr>]))"

definition get_task_by_id :: "string \<Rightarrow> scheduled_task list \<Rightarrow> scheduled_task option" where
  "get_task_by_id i db = find (\<lambda>t. tid t = i) db"

definition update_task_status :: "string \<Rightarrow> string \<Rightarrow> scheduled_task list \<Rightarrow> scheduled_task list" where
  "update_task_status i st db = map (\<lambda>t. if tid t = i then t\<lparr>status := st\<rparr> else t) db"

definition delete_task :: "string \<Rightarrow> scheduled_task list \<Rightarrow> scheduled_task list" where
  "delete_task i db = filter (\<lambda>t. tid t \<noteq> i) db"

definition update_task_after_run ::
  "string \<Rightarrow> string option \<Rightarrow> string \<Rightarrow> string \<Rightarrow> scheduled_task list \<Rightarrow> scheduled_task list" where
  "update_task_after_run i nr res now db =
     map (\<lambda>t. if tid t = i
               then t\<lparr>next_run := nr, last_run := Some now, last_result := Some res,
                      status := (if nr = None then ''completed'' else status t)\<rparr>
               else t) db"

definition register_group ::
  "chat_id \<Rightarrow> registered_group \<Rightarrow> (chat_id \<times> registered_group) list \<Rightarrow> (chat_id \<times> registered_group) list" where
  "register_group c g regs =
     (if c \<in> set (map fst regs) then map (\<lambda>(k, v). if k = c then (k, g) else (k, v)) regs
      else regs @ [(c, g)])"

text \<open>
  The block of \<open>process_task_ipc\<close> under the comment \<open># Calculate next_run\<close>: it returns
  from the function (\<open>Rejected\<close>), lets an exception escape (\<open>Raises\<close>) or goes on with
  a value of \<open>next_run\<close>, which stays \<open>None\<close> when no branch of the \<open>if\<close> chain is taken.
\<close>

datatype next_run_result = Rejected | Raises ipc_error | NextRun "string option"

definition calculate_next_run :: "env \<Rightarrow> string \<Rightarrow> string \<Rightarrow> next_run_result" where
  "calculate_next_run env stype sval =
     (if stype = ''cron'' then
        (case croniter_next env sval of None \<Rightarrow> Rejected | Some n \<Rightarrow> NextRun (Some n))
      else if stype = ''interval'' then
        (case py_int env sval of
           None \<Rightarrow> Raises ValueError
         | Some ms \<Rightarrow>
             if ms \<le> 0 then Rejected
             else (case timestamp_after_ms env ms of
                     None \<Rightarrow> Raises RangeError
                   | Some n \<Rightarrow> NextRun (Some n)))
      else if stype = ''once'' then
        (case fromisoformat env sval of None \<Rightarrow> Rejected | Some n \<Rightarrow> NextRun (Some n))
      else NextRun None)"

definition authorized_task :: "bool \<Rightarrow> string \<Rightarrow> scheduled_task option \<Rightarrow> bool" where
  "authorized_task is_main source_group task =
     (case task of None \<Rightarrow> False | Some t \<Rightarrow> is_main \<or> task_group_folder t = source_group)"

definition process_task_ipc ::
  "env \<Rightarrow> ipc_data \<Rightarrow> string \<Rightarrow> bool \<Rightarrow> ipc_state \<Rightarrow> ipc_error + ipc_state" where
  "process_task_ipc env data source_group is_main s =
     (let task_type = (case data ''type'' of None \<Rightarrow> [] | Some t \<Rightarrow> t) in
      if task_type = ''schedule_task'' then
        (let prompt_v = data ''prompt'';
             schedule_type_v = data ''schedule_type'';
             schedule_value_v = data ''schedule_value'';
             target_chat_id = py_or (data ''targetChatId'') (data ''targetJid'')
         in
         if \<not> (truthy prompt_v \<and> truthy schedule_type_v \<and> truthy schedule_value_v \<and>
                truthy target_chat_id)
         then Inr s
         else
           (case map_of (registered s) (the target_chat_id) of
              None \<Rightarrow> Inr s
            | Some target_group \<Rightarrow>
                if \<not> is_main \<and> folder target_group \<noteq> source_group then Inr s
                else
                  (case calculate_next_run env (the schedule_type_v) (the schedule_value_v) of
                     Rejected \<Rightarrow> Inr s
                   | Raises e \<Rightarrow> Inl e
                   | NextRun nr \<Rightarrow>
                       (let cm = (case data ''context_mode'' of None \<Rightarrow> ''isolated'' | Some m \<Rightarrow> m);
                            cm' = (if cm = ''group'' \<or> cm = ''isolated'' then cm else ''isolated'')
                        in
                        case create_task
                               \<lparr>tid = new_task_id env, task_group_folder = folder target_group,
                                task_chat_id = the target_chat_id, prompt = the prompt_v,
                                schedule_type = the schedule_type_v,
                                schedule_value = the schedule_value_v, context_mode = cm',
                                next_run = nr, status = ''active'', created_at = now_iso env,
                                last_run = None, last_result = None\<rparr>
                               (tasks s) of
                          Inl e \<Rightarrow> Inl e
                        | Inr db \<Rightarrow> Inr (s\<lparr>tasks := db\<rparr>)))))
      else if task_type = ''pause_task'' then
        (if truthy (data ''taskId'') then
           (if authorized_task is_main source_group (get_task_by_id (the (data ''taskId'')) (tasks s))
            then Inr (s\<lparr>tasks := update_task_status (the (data ''taskId'')) ''paused'' (tasks s)\<rparr>)
            else Inr s)
         else Inr s)
      else if task_type = ''resume_task'' then
        (if truthy (data ''taskId'') then
           (if authorized_task is_main source_group (get_task_by_id (the (data ''taskId'')) (tasks s))
            then Inr (s\<lparr>tasks := update_task_status (the (data ''taskId'')) ''active'' (tasks s)\<rparr>)
            else Inr s)
         else Inr s)
      else if task_type = ''cancel_task'' then
        (if truthy (data ''taskId'') then
           (if authorized_task is_main source_group (get_task_by_id (the (data ''taskId'')) (tasks s))
            then Inr (s\<lparr>tasks := delete_task (the (data ''taskId'')) (tasks s)\<rparr>)
            else Inr s)
         else Inr s)
      else if task_type = ''refresh_groups'' then Inr s
      else if task_type = ''register_group'' then
        (if \<not> is_main then Inr s
         else
           (let chat = py_or (data ''chatId'') (data ''jid'') in
            if truthy chat \<and> truthy (data ''name'') \<and> truthy (data ''folder'') \<and>
               truthy (data ''trigger'')
            then Inr (s\<lparr>registered :=
                          register_group (the chat)
                            \<lparr>rg_name = the (data ''name''), folder = the (data ''folder''),
                             trigger = the (data ''trigger''), added_at = now_iso env\<rparr>
                            (registered s)\<rparr>)
            else Inr s))
      else Inr s)"

text \<open>
  The caller in \<open>_process_ipc_files\<close>: \<open>is_main\<close> is computed from the name of the
  mailbox directory, and a request whose handling raises is moved to the error directory,
  which leaves the store as it was.
\<close>

definition dispatch_task_file ::
  "env \<Rightarrow> ipc_data \<Rightarrow> string \<Rightarrow> ipc_state \<Rightarrow> ipc_error + ipc_state" where
  "dispatch_task_file env data source_group s =
     process_task_ipc env data source_group (source_group = MAIN_GROUP_FOLDER) s"

definition process_task_file :: "env \<Rightarrow> ipc_data \<Rightarrow> string \<Rightarrow> ipc_state \<Rightarrow> ipc_state" where
  "process_task_file env data source_group s =
     (case dispatch_task_file env data source_group s of Inl e \<Rightarrow> s | Inr s' \<Rightarrow> s')"

text \<open>
  The end of \<open>_run_task\<close> in the scheduler, after the worker has run: the next run is
  computed from the kind of schedule and written with \<open>update_task_after_run\<close>.  Nothing
  is written when no registered group has the folder of the task.
\<close>

definition run_task_finish :: "env \<Rightarrow> scheduled_task \<Rightarrow> string \<Rightarrow> ipc_state \<Rightarrow> ipc_error + ipc_state" where
  "run_task_finish env task result_summary s =
     (if \<not> list_ex (\<lambda>(c, g). folder g = task_group_folder task) (registered s) then Inr s
      else if schedule_type task = ''cron'' then
        (case croniter_next env (schedule_value task) of
           None \<Rightarrow> Inl ValueError
         | Some n \<Rightarrow>
             Inr (s\<lparr>tasks := update_task_after_run (tid task) (Some n) result_summary (now_iso env) (tasks s)\<rparr>))
      else if schedule_type task = ''interval'' then
        (case py_int env (schedule_value task) of
           None \<Rightarrow> Inl ValueError
         | Some ms \<Rightarrow>
             (case timestamp_after_ms env ms of
                None \<Rightarrow> Inl RangeError
              | Some n \<Rightarrow>
                  Inr (s\<lparr>tasks := update_task_after_run (tid task) (Some n) result_summary (now_iso env) (tasks s)\<rparr>)))
      else
        Inr (s\<lparr>tasks := update_task_after_run (tid task) None result_summary (now_iso env) (tasks s)\<rparr>))"

text \<open>
  A valid schedule specification in the words of the specification: a cron expression that
  \<open>croniter\<close> accepts, a positive number of milliseconds (whose timestamp can be
  represented), or a timestamp that parses.  The job invariant of the data model:
  \<open>next_run\<close> is null exactly for a completed one-shot job.  \<open>known_kind\<close> holds of
  the three kinds of schedule.
\<close>

definition spec_valid_schedule :: "env \<Rightarrow> string \<Rightarrow> string \<Rightarrow> bool" where
  "spec_valid_schedule env stype sval =
     (sval \<noteq> [] \<and>
      (if stype = ''cron'' then croniter_next env sval \<noteq> None
       else if stype = ''interval'' then
         (case py_int env sval of
            None \<Rightarrow> False
          | Some ms \<Rightarrow> 0 < ms \<and> timestamp_after_ms env ms \<noteq> None)
       else if stype = ''once'' then fromisoformat env sval \<noteq> None
       else False))"

definition job_inv :: "scheduled_task \<Rightarrow> bool" where
  "job_inv t = ((next_run t = None) = (schedule_type t = ''once'' \<and> status t = ''completed''))"

definition known_kind :: "string \<Rightarrow> bool" where
  "known_kind stype = (stype = ''cron'' \<or> stype = ''interval'' \<or> stype = ''once'')"

text \<open>
  Concrete inputs: an environment that knows the schedule values of the test suite, two
  registered groups, and three requests.
\<close>

definition sample_env :: env where
  "sample_env =
     \<lparr>croniter_next = (\<lambda>v. if v = ''0 9 * * *'' then Some ''2025-01-02T09:00:00+00:00'' else None),
      py_int = (\<lambda>v. if v = ''3600000'' then Some 3600000 else if v = ''0'' then Some 0
                     else if v = ''-5'' then Some (-5) else None),
      timestamp_after_ms = (\<lambda>ms. Some ''2025-01-01T11:00:00+00:00''),
      fromisoformat = (\<lambda>v. if v = ''2025-06-01T00:00:00'' then Some ''2025-06-01T00:00:00'' else None),
      new_task_id = ''task-1735725600000-0a1b2c3d'',
      now_iso = ''2025-01-01T10:00:00+00:00''\<rparr>"

definition sample_groups :: "(chat_id \<times> registered_group) list" where
  "sample_groups =
     [(''-100main'', \<lparr>rg_name = ''Main'', folder = ''main'', trigger = ''always'', added_at = ''2024-01-01''\<rparr>),
      (''-100other'', \<lparr>rg_name = ''Other'', folder = ''other-group'', trigger = ''@Andy'', added_at = ''2024-01-01''\<rparr>)]"

definition sample_state :: ipc_state where
  "sample_state = \<lparr>tasks = [], registered = sample_groups\<rparr>"

definition request :: "(string \<times> string) list \<Rightarrow> ipc_data" where
  "request kvs = map_of kvs"


definition no_prompt_request :: ipc_data where
  "no_prompt_request =
     request [(''type'', ''schedule_task''), (''prompt'', []), (''schedule_type'', ''interval''),
              (''schedule_value'', ''3600000''), (''targetChatId'', ''-100main'')]"

definition no_target_request :: ipc_data where
  "no_target_request =
     request [(''type'', ''schedule_task''), (''prompt'', ''water the plants''),
              (''schedule_type'', ''interval''), (''schedule_value'', ''3600000'')]"

definition interval_request :: ipc_data where
  "interval_request =
     request [(''type'', ''schedule_task''), (''prompt'', ''water the plants''),
              (''schedule_type'', ''interval''), (''schedule_value'', ''3600000''),
              (''targetChatId'', ''-100main'')]"

definition weekly_request :: ipc_data where
  "weekly_request =
     request [(''type'', ''schedule_task''), (''prompt'', ''water the plants''),
              (''schedule_type'', ''weekly''), (''schedule_value'', ''monday''),
              (''targetChatId'', ''-100other'')]"

section \<open>The reader of worker output (src/nanoclaw/container\_runner.py)\<close>

text \<open>
  A JSON value, as \<open>json.loads\<close> returns it (an object is the list of its members), and
  the model \<open>ContainerOutput\<close>; its fields \<open>status\<close>, \<open>result\<close> and \<open>error\<close> are written
  \<open>out_status\<close>, \<open>out_result\<close> and \<open>out_error\<close>.
\<close>

datatype json =
    JNull
  | JBool bool
  | JNum rat
  | JStr string
  | JArr "json list"
  | JObj "(string \<times> json) list"

record container_output =
  out_status :: string
  out_result :: "string option"
  new_session_id :: "string option"
  out_error :: "string option"

datatype read_error = LimitValueError | AttributeError | ValidationError

text \<open>
  The standard output of the worker is the pipe that \<open>asyncio.create_subprocess_exec\<close>
  opens; no \<open>limit\<close> is passed, so its \<open>StreamReader\<close> has asyncio's default limit of
  \<open>2 ** 16\<close> bytes.
\<close>

definition DEFAULT_LIMIT :: nat where
  "DEFAULT_LIMIT = 2 ^ 16"

definition OUTPUT_START :: string where
  "OUTPUT_START = ''===OUTPUT_START===''"

definition OUTPUT_END :: string where
  "OUTPUT_END = ''===OUTPUT_END===''"

definition no_output :: container_output where
  "no_output =
     \<lparr>out_status = ''error'', out_result = None, new_session_id = None,
      out_error = Some ''No output received''\<rparr>"

text \<open>
  The construction of the envelope from the parsed value.  \<open>parsed.get\<close> exists only on a
  dictionary, so any other JSON value raises \<open>AttributeError\<close>.  The model class is a
  pydantic (version 2) model: a field declared \<open>str\<close> takes a string only, a field declared
  \<open>str | None\<close> a string or null, and anything else raises \<open>ValidationError\<close>.  Neither
  exception is caught by the reader, whose \<open>except\<close> clause names \<open>JSONDecodeError\<close> only.
\<close>

definition dict_get :: "(string \<times> json) list \<Rightarrow> string \<Rightarrow> json \<Rightarrow> json" where
  "dict_get kvs k d = (case map_of kvs k of None \<Rightarrow> d | Some v \<Rightarrow> v)"

fun str_field :: "json \<Rightarrow> read_error + string" where
  "str_field (JStr s) = Inr s"
| "str_field _ = Inl ValidationError"

fun opt_str_field :: "json \<Rightarrow> read_error + string option" where
  "opt_str_field JNull = Inr None"
| "opt_str_field (JStr s) = Inr (Some s)"
| "opt_str_field _ = Inl ValidationError"

fun make_output :: "json \<Rightarrow> read_error + container_output" where
  "make_output (JObj kvs) =
     (case str_field (dict_get kvs ''status'' (JStr ''success'')) of
        Inl err \<Rightarrow> Inl err
      | Inr st \<Rightarrow>
     (case opt_str_field (dict_get kvs ''result'' JNull) of
        Inl err \<Rightarrow> Inl err
      | Inr res \<Rightarrow>
     (case opt_str_field (dict_get kvs ''newSessionId'' JNull) of
        Inl err \<Rightarrow> Inl err
      | Inr sid \<Rightarrow>
     (case opt_str_field (dict_get kvs ''error'' JNull) of
        Inl err \<Rightarrow> Inl err
      | Inr er \<Rightarrow>
          Inr \<lparr>out_status = st, out_result = res, new_session_id = sid, out_error = er\<rparr>))))"
| "make_output _ = Inl AttributeError"

text \<open>
  What the reader takes from outside: the constant \<open>CONTAINER_MAX_OUTPUT_SIZE\<close> (read from
  the environment), \<open>json.loads\<close> (\<open>None\<close> when it raises \<open>JSONDecodeError\<close>), whether
  an \<open>on_output\<close> callback was passed (one that returns normally), and \<open>decode\<close>, which
  is \<open>line_bytes.decode("utf-8", errors="replace")\<close> followed by the \<open>rstrip\<close> of the
  line end: the text of a line from its bytes.  The state holds the local variables of
  \<open>_read_container_output\<close> and the envelopes passed to \<open>on_output\<close> so far.

  The stream is the list of its lines as \<open>readline\<close> meets them, each one the bytes before
  the line end (the last line may have none).  \<open>readline\<close> raises \<open>ValueError\<close> on a line of
  more than \<open>DEFAULT_LIMIT\<close> bytes, with or without a line end, and the reader does not
  catch it (\<open>LimitValueError\<close>); a shorter line is returned, decoded and handled by the
  body of the loop, \<open>process_line\<close>.  \<open>len(line)\<close> counts the characters of the decoded
  line.
\<close>

record reader_env =
  max_output_size :: int
  json_loads :: "string \<Rightarrow> json option"
  on_output :: bool
  decode :: "string \<Rightarrow> string"

record reader_state =
  final :: container_output
  buffer :: "string list"
  in_output :: bool
  total_size :: nat
  outputs :: "container_output list"

definition init_reader :: reader_state where
  "init_reader =
     \<lparr>final = no_output, buffer = [], in_output = False, total_size = 0, outputs = []\<rparr>"

fun join_lines :: "string list \<Rightarrow> string" where
  "join_lines [] = []"
| "join_lines [l] = l"
| "join_lines (l # ls) = l @ CHR 0x0A # join_lines ls"

definition process_line :: "reader_env \<Rightarrow> reader_state \<Rightarrow> string \<Rightarrow> read_error + reader_state" where
  "process_line e st line =
     (if line = OUTPUT_START then Inr (st\<lparr>in_output := True, buffer := []\<rparr>)
      else if line = OUTPUT_END \<and> in_output st then
        (case json_loads e (join_lines (buffer st)) of
           None \<Rightarrow> Inr (st\<lparr>in_output := False\<rparr>)
         | Some parsed \<Rightarrow>
             (case make_output parsed of
                Inl err \<Rightarrow> Inl err
              | Inr out \<Rightarrow>
                  Inr (st\<lparr>in_output := False, final := out,
                          outputs := (if on_output e then outputs st @ [out] else outputs st)\<rparr>)))
      else if in_output st then
        (if int (total_size st + length line) > max_output_size e
         then Inr (st\<lparr>total_size := total_size st + length line, in_output := False\<rparr>)
         else Inr (st\<lparr>total_size := total_size st + length line, buffer := buffer st @ [line]\<rparr>))
      else Inr st)"

definition read_line :: "reader_env \<Rightarrow> reader_state \<Rightarrow> string \<Rightarrow> read_error + reader_state" where
  "read_line e st line_bytes =
     (if length line_bytes > DEFAULT_LIMIT then Inl LimitValueError
      else process_line e st (decode e line_bytes))"

fun read_lines :: "reader_env \<Rightarrow> reader_state \<Rightarrow> string list \<Rightarrow> read_error + reader_state" where
  "read_lines e st [] = Inr st"
| "read_lines e st (b # bs) =
     (case read_line e st b of Inl err \<Rightarrow> Inl err | Inr st' \<Rightarrow> read_lines e st' bs)"

definition read_container_output :: "reader_env \<Rightarrow> string list \<Rightarrow> read_error + reader_state" where
  "read_container_output e stream = read_lines e init_reader stream"

text \<open>
  The body of the loop over lines that are already decoded, and the streams all of whose
  lines \<open>readline\<close> returns.
\<close>

fun process_lines :: "reader_env \<Rightarrow> reader_state \<Rightarrow> string list \<Rightarrow> read_error + reader_state" where
  "process_lines e st [] = Inr st"
| "process_lines e st (l # ls) =
     (case process_line e st l of Inl err \<Rightarrow> Inl err | Inr st' \<Rightarrow> process_lines e st' ls)"

definition lines_within_limit :: "string list \<Rightarrow> bool" where
  "lines_within_limit stream = list_all (\<lambda>b. length b \<le> DEFAULT_LIMIT) stream"

text \<open>
  The stream in the words of the specification: noise lines and blocks.  A block is a begin
  marker, lines that are not markers and an end marker; \<open>Dangling\<close> is a begin marker
  with the lines after it that no end marker closes (another begin marker or the end of the
  stream follows), and an end marker outside a block is noise.  \<open>envelopes\<close> are the
  envelopes of the blocks that parse, in stream order; \<open>blocks_ok\<close> says that no block holds
  JSON from which the envelope cannot be built; \<open>content_size\<close> is the number of characters
  between markers.  \<open>segments_of\<close> cuts any stream into such segments.
\<close>

datatype segment = Noise string | Block "string list" | Dangling "string list"

fun render :: "segment \<Rightarrow> string list" where
  "render (Noise l) = [l]"
| "render (Block ls) = OUTPUT_START # ls @ [OUTPUT_END]"
| "render (Dangling ls) = OUTPUT_START # ls"

definition plain :: "string list \<Rightarrow> bool" where
  "plain ls = list_all (\<lambda>l. l \<noteq> OUTPUT_START \<and> l \<noteq> OUTPUT_END) ls"

fun starts_with_noise :: "segment list \<Rightarrow> bool" where
  "starts_with_noise (Noise l # ss) = True"
| "starts_with_noise _ = False"

fun wf_segments :: "segment list \<Rightarrow> bool" where
  "wf_segments [] = True"
| "wf_segments (Noise l # ss) = (l \<noteq> OUTPUT_START \<and> wf_segments ss)"
| "wf_segments (Block ls # ss) = (plain ls \<and> wf_segments ss)"
| "wf_segments (Dangling ls # ss) = (plain ls \<and> \<not> starts_with_noise ss \<and> wf_segments ss)"

definition envelope :: "reader_env \<Rightarrow> string list \<Rightarrow> container_output option" where
  "envelope e ls =
     (case json_loads e (join_lines ls) of
        None \<Rightarrow> None
      | Some parsed \<Rightarrow> (case make_output parsed of Inl err \<Rightarrow> None | Inr out \<Rightarrow> Some out))"

definition block_ok :: "reader_env \<Rightarrow> string list \<Rightarrow> bool" where
  "block_ok e ls =
     (case json_loads e (join_lines ls) of
        None \<Rightarrow> True
      | Some parsed \<Rightarrow> (case make_output parsed of Inl err \<Rightarrow> False | Inr out \<Rightarrow> True))"

fun envelopes :: "reader_env \<Rightarrow> segment list \<Rightarrow> container_output list" where
  "envelopes e [] = []"
| "envelopes e (Block ls # ss) =
     (case envelope e ls of None \<Rightarrow> envelopes e ss | Some out \<Rightarrow> out # envelopes e ss)"
| "envelopes e (s # ss) = envelopes e ss"

fun blocks_ok :: "reader_env \<Rightarrow> segment list \<Rightarrow> bool" where
  "blocks_ok e [] = True"
| "blocks_ok e (Block ls # ss) = (block_ok e ls \<and> blocks_ok e ss)"
| "blocks_ok e (s # ss) = blocks_ok e ss"

definition lines_size :: "string list \<Rightarrow> nat" where
  "lines_size ls = sum_list (map length ls)"

fun content_size :: "segment list \<Rightarrow> nat" where
  "content_size [] = 0"
| "content_size (Noise l # ss) = content_size ss"
| "content_size (Block ls # ss) = lines_size ls + content_size ss"
| "content_size (Dangling ls # ss) = lines_size ls + content_size ss"

definition delivered :: "reader_env \<Rightarrow> segment list \<Rightarrow> container_output list" where
  "delivered e segs = (if on_output e then envelopes e segs else [])"

definition last_or :: "'a \<Rightarrow> 'a list \<Rightarrow> 'a" where
  "last_or d xs = (if xs = [] then d else last xs)"

definition plain_line :: "string \<Rightarrow> bool" where
  "plain_line l = (l \<noteq> OUTPUT_START \<and> l \<noteq> OUTPUT_END)"

function segments_of :: "string list \<Rightarrow> segment list" where
  "segments_of [] = []"
| "segments_of (l # ls) =
     (if l = OUTPUT_START then
        (case dropWhile plain_line ls of
           [] \<Rightarrow> [Dangling (takeWhile plain_line ls)]
         | m # rest \<Rightarrow>
             if m = OUTPUT_END then Block (takeWhile plain_line ls) # segments_of rest
             else Dangling (takeWhile plain_line ls) # segments_of (m # rest))
      else Noise l # segments_of ls)"
  by pat_completeness auto
termination
proof (relation "measure length")
  show "wf (measure length)" by simp
next
  fix l ls m rest
  assume "dropWhile plain_line ls = m # rest"
  then have "length (m # rest) \<le> length ls"
    by (metis length_dropWhile_le)
  then show "(rest, l # ls) \<in> measure length" by simp
next
  fix l ls m rest
  assume "dropWhile plain_line ls = m # rest"
  then have "length (m # rest) \<le> length ls"
    by (metis length_dropWhile_le)
  then show "(m # rest, l # ls) \<in> measure length" by simp
next
  fix l :: string and ls :: "string list"
  show "(ls, l # ls) \<in> measure length" by simp
qed

text \<open>
  The state of the reader once the accumulated size is over the maximum and no block is
  being accumulated.
\<close>

definition truncated :: "reader_env \<Rightarrow> reader_state \<Rightarrow> bool" where
  "truncated e st = (int (total_size st) > max_output_size e \<and> (in_output st \<longrightarrow> buffer st = []))"

text \<open>
  Concrete inputs: a fragment of \<open>json.loads\<close> on the payloads used below
  (\<open>payload r\<close> is the text of the object whose member \<open>result\<close> is \<open>r\<close>), a reader with
  a maximum of 30 characters and one with the default maximum (both on streams of ASCII
  bytes, which decode to themselves), and three streams.
\<close>

definition quoted :: "string \<Rightarrow> string" where
  "quoted s = CHR 0x22 # s @ [CHR 0x22]"

definition payload :: "string \<Rightarrow> string" where
  "payload r = ''{'' @ quoted ''result'' @ '': '' @ quoted r @ ''}''"

definition sample_json_loads :: "string \<Rightarrow> json option" where
  "sample_json_loads raw =
     (if raw = payload ''first'' then Some (JObj [(''result'', JStr ''first'')])
      else if raw = payload ''second'' then Some (JObj [(''result'', JStr ''second'')])
      else if raw = ''42'' then Some (JNum 42)
      else None)"

definition sample_reader :: reader_env where
  "sample_reader =
     \<lparr>max_output_size = 30, json_loads = sample_json_loads, on_output = True,
      decode = (\<lambda>b. b)\<rparr>"

definition success :: "string \<Rightarrow> container_output" where
  "success r =
     \<lparr>out_status = ''success'', out_result = Some r, new_session_id = None, out_error = None\<rparr>"

definition two_blocks :: "segment list" where
  "two_blocks = [Block [payload ''first''], Noise ''log line'', Block [payload ''second'']]"

definition oversize_then_block :: "segment list" where
  "oversize_then_block = [Block [''xxxxxxxxxxxxxxxxxxxxxxxxxxxxxxxxxxxxxxxx''], Block [payload ''second'']]"

definition default_reader :: reader_env where
  "default_reader =
     \<lparr>max_output_size = 10485760, json_loads = sample_json_loads, on_output = True,
      decode = (\<lambda>b. b)\<rparr>"

definition mixed_stream :: "segment list" where
  "mixed_stream =
     [Noise ''starting'', Block [payload ''first''], Noise OUTPUT_END, Dangling [''{''],
      Block [''not json''], Block [payload ''second''], Noise ''bye'']"

section \<open>Mount security (src/nanoclaw/mount\_security.py)\<close>

text \<open>
  The models \<open>AdditionalMount\<close>, \<open>AllowedRoot\<close> (its field \<open>path\<close> is written
  \<open>root_path\<close>) and \<open>MountAllowlist\<close>, and what the validator takes from the host: the
  cached result of \<open>load_mount_allowlist\<close> (\<open>None\<close> when the file is missing or invalid),
  \<open>_expand_path\<close>, \<open>_get_real_path\<close> (\<open>None\<close> when the path does not exist), whether
  \<open>Path.relative_to\<close> succeeds, and \<open>Path.name\<close>.
\<close>

record additional_mount =
  host_path :: string
  container_path :: "string option"
  readonly :: bool

record allowed_root =
  root_path :: string
  allow_read_write :: bool
  description :: "string option"

record mount_allowlist =
  allowed_roots :: "allowed_root list"
  blocked_patterns :: "string list"
  non_main_read_only :: bool

record host =
  load_mount_allowlist :: "mount_allowlist option"
  expand_path :: "string \<Rightarrow> string"
  get_real_path :: "string \<Rightarrow> string option"
  relative_to :: "string \<Rightarrow> string \<Rightarrow> bool"
  path_name :: "string \<Rightarrow> string"

text \<open>
  \<open>contains p s\<close> is Python's \<open>p in s\<close> on strings, \<open>split_on\<close> its \<open>str.split\<close> with a
  separator, \<open>py_isspace\<close> the characters that \<open>str.strip\<close> removes.
\<close>

fun contains :: "string \<Rightarrow> string \<Rightarrow> bool" where
  "contains p [] = (p = [])"
| "contains p (c # cs) = (take (length p) (c # cs) = p \<or> contains p cs)"

fun split_on :: "char \<Rightarrow> string \<Rightarrow> string list" where
  "split_on sep [] = [[]]"
| "split_on sep (c # cs) =
     (if c = sep then [] # split_on sep cs
      else (case split_on sep cs of [] \<Rightarrow> [[c]] | part # parts \<Rightarrow> (c # part) # parts))"

fun matches_blocked_pattern :: "string \<Rightarrow> string list \<Rightarrow> string option" where
  "matches_blocked_pattern real_path [] = None"
| "matches_blocked_pattern real_path (pattern # patterns) =
     (if list_ex (\<lambda>part. part = pattern \<or> contains pattern part) (split_on CHR ''/'' real_path)
      then Some pattern
      else if contains pattern real_path then Some pattern
      else matches_blocked_pattern real_path patterns)"

definition find_allowed_root :: "host \<Rightarrow> string \<Rightarrow> allowed_root list \<Rightarrow> allowed_root option" where
  "find_allowed_root h real_path roots =
     find (\<lambda>aroot. case get_real_path h (expand_path h (root_path aroot)) of
                     None \<Rightarrow> False
                   | Some real_root \<Rightarrow> relative_to h real_path real_root) roots"

definition py_isspace :: "char \<Rightarrow> bool" where
  "py_isspace c =
     (c \<in> set [CHR 0x09, CHR 0x0A, CHR 0x0B, CHR 0x0C, CHR 0x0D, CHR 0x1C, CHR 0x1D, CHR 0x1E,
               CHR 0x1F, CHR 0x20, CHR 0x85, CHR 0xA0])"

definition is_valid_container_path :: "string \<Rightarrow> bool" where
  "is_valid_container_path p =
     (if contains ''..'' p then False
      else if take 1 p = ''/'' then False
      else if p = [] \<or> list_all py_isspace p then False
      else True)"

text \<open>
  \<open>MountValidationResult\<close>.  The reason, a formatted message in the code, is kept as a tag
  with the values it is formatted from.
\<close>

datatype reason =
    NoAllowlist
  | InvalidContainerPath string
  | HostPathMissing string
  | BlockedPattern string string
  | NotUnderAllowedRoot string
  | AllowedUnder string

record mount_validation_result =
  allowed :: bool
  reason :: reason
  real_host_path :: "string option"
  resolved_container_path :: "string option"
  effective_readonly :: "bool option"

definition rejected :: "reason \<Rightarrow> mount_validation_result" where
  "rejected why =
     \<lparr>allowed = False, reason = why, real_host_path = None, resolved_container_path = None,
      effective_readonly = None\<rparr>"

definition validate_mount :: "host \<Rightarrow> additional_mount \<Rightarrow> bool \<Rightarrow> mount_validation_result" where
  "validate_mount h mount is_main =
     (case load_mount_allowlist h of
        None \<Rightarrow> rejected NoAllowlist
      | Some allowlist \<Rightarrow>
          let cpath = (case container_path mount of
                         None \<Rightarrow> path_name h (host_path mount)
                       | Some p \<Rightarrow> if p = [] then path_name h (host_path mount) else p)
          in
          if \<not> is_valid_container_path cpath then rejected (InvalidContainerPath cpath)
          else
            (case get_real_path h (expand_path h (host_path mount)) of
               None \<Rightarrow> rejected (HostPathMissing (host_path mount))
             | Some real_path \<Rightarrow>
                 (case matches_blocked_pattern real_path (blocked_patterns allowlist) of
                    Some pattern \<Rightarrow> rejected (BlockedPattern pattern real_path)
                  | None \<Rightarrow>
                      (case find_allowed_root h real_path (allowed_roots allowlist) of
                         None \<Rightarrow> rejected (NotUnderAllowedRoot real_path)
                       | Some aroot \<Rightarrow>
                           \<lparr>allowed = True, reason = AllowedUnder (root_path aroot),
                            real_host_path = Some real_path,
                            resolved_container_path = Some cpath,
                            effective_readonly =
                              Some (if \<not> readonly mount
                                    then (if \<not> is_main \<and> non_main_read_only allowlist then True
                                          else if \<not> allow_read_write aroot then True
                                          else False)
                                    else True)\<rparr>))))"

text \<open>
  \<open>ValidatedMount\<close> (fields \<open>host_path\<close>, \<open>container_path\<close>, \<open>readonly\<close>, here with the
  prefix \<open>vm_\<close>) and \<open>validate_additional_mounts\<close>.  \<open>py_or_bool a b\<close> is Python's
  \<open>a or b\<close> for \<open>a\<close> of type \<open>bool | None\<close>; the code computes
  \<open>result.effective_readonly or True\<close>.  \<open>mount_argument\<close> is the \<open>--mount\<close> argument that
  \<open>_build_container_command\<close> formats for a validated mount.
\<close>

record validated_mount =
  vm_host_path :: string
  vm_container_path :: string
  vm_readonly :: bool

definition py_or_bool :: "bool option \<Rightarrow> bool \<Rightarrow> bool" where
  "py_or_bool a b = (case a of Some True \<Rightarrow> True | _ \<Rightarrow> b)"

definition to_validated :: "mount_validation_result \<Rightarrow> validated_mount" where
  "to_validated r =
     \<lparr>vm_host_path = (case real_host_path r of None \<Rightarrow> [] | Some p \<Rightarrow> p),
      vm_container_path =
        ''/workspace/extra/'' @ (case resolved_container_path r of None \<Rightarrow> ''None'' | Some p \<Rightarrow> p),
      vm_readonly = py_or_bool (effective_readonly r) True\<rparr>"

fun validate_additional_mounts ::
  "host \<Rightarrow> additional_mount list \<Rightarrow> string \<Rightarrow> bool \<Rightarrow> validated_mount list" where
  "validate_additional_mounts h [] group_name is_main = []"
| "validate_additional_mounts h (mount # mounts) group_name is_main =
     (if allowed (validate_mount h mount is_main)
      then to_validated (validate_mount h mount is_main) #
           validate_additional_mounts h mounts group_name is_main
      else validate_additional_mounts h mounts group_name is_main)"

definition mount_argument :: "validated_mount \<Rightarrow> string" where
  "mount_argument m =
     ''type=bind,src='' @ vm_host_path m @ '',dst='' @ vm_container_path m @
     (if vm_readonly m then '',readonly'' else [])"

text \<open>
  A concrete host: one allowed root that permits read-write mounts, and a read-write mount
  request under it.
\<close>

definition sample_host :: host where
  "sample_host =
     \<lparr>load_mount_allowlist =
        Some \<lparr>allowed_roots =
                 [\<lparr>root_path = ''/home/user/projects'', allow_read_write = True,
                   description = Some ''Development projects''\<rparr>],
               blocked_patterns = [''.ssh'', ''.env'', ''credentials''],
               non_main_read_only = True\<rparr>,
      expand_path = (\<lambda>p. p),
      get_real_path =
        (\<lambda>p. if p = ''/home/user/projects'' \<or> p = ''/home/user/projects/app'' then Some p
              else None),
      relative_to = (\<lambda>p r. p = r \<or> take (length r + 1) p = r @ ''/''),
      path_name = (\<lambda>p. last (split_on CHR ''/'' p))\<rparr>"

definition rw_mount :: additional_mount where
  "rw_mount = \<lparr>host_path = ''/home/user/projects/app'', container_path = None, readonly = False\<rparr>"

section \<open>Properties of the group queue\<close>

lemmas basic_defs = get_group_def state_of_def put_state_def asyncio_create_task_def Let_def

lemma body_created:
  "\<exists>new. created (drain_waiting_body g q) = created q @ new \<and> (\<forall>k\<in>set new. \<not> is_retry k)"
  by (auto simp: drain_waiting_body_def basic_defs split: option.splits list.splits)

lemma body_retry_count:
  "retry_count (state_of (drain_waiting_body g q) c) = retry_count (state_of q c)"
  by (auto simp: drain_waiting_body_def basic_defs new_group_state_def split: option.splits list.splits)

lemma body_shutting: "shutting_down (drain_waiting_body g q) = shutting_down q"
  by (auto simp: drain_waiting_body_def basic_defs split: option.splits list.splits)

lemma drain_waiting_created:
  "\<exists>new. created (drain_waiting cap q) = created q @ new \<and> (\<forall>k\<in>set new. \<not> is_retry k)"
proof (induction cap q rule: drain_waiting.induct)
  case (1 cap q)
  show ?case
  proof (cases "waiting q")
    case Nil
    then show ?thesis by (simp add: drain_waiting.simps)
  next
    case (Cons g rest)
    show ?thesis
    proof (cases "active_count q < cap")
      case False
      with Cons show ?thesis by (simp add: drain_waiting.simps)
    next
      case True
      let ?q1 = "drain_waiting_body g (q\<lparr>waiting := rest\<rparr>)"
      from "1.IH"[OF Cons True] obtain new where
        n: "created (drain_waiting cap ?q1) = created ?q1 @ new" "\<forall>k\<in>set new. \<not> is_retry k"
        by blast
      from body_created[of g "q\<lparr>waiting := rest\<rparr>"] obtain new0 where
        n0: "created ?q1 = created q @ new0" "\<forall>k\<in>set new0. \<not> is_retry k"
        by auto
      have "drain_waiting cap q = drain_waiting cap ?q1"
        using Cons True by (subst drain_waiting.simps) simp
      with n n0 show ?thesis by auto
    qed
  qed
qed

lemma drain_waiting_retry_count:
  "retry_count (state_of (drain_waiting cap q) c) = retry_count (state_of q c)"
proof (induction cap q rule: drain_waiting.induct)
  case (1 cap q)
  show ?case
  proof (cases "waiting q")
    case Nil
    then show ?thesis by (simp add: drain_waiting.simps)
  next
    case (Cons g rest)
    show ?thesis
    proof (cases "active_count q < cap")
      case False
      with Cons show ?thesis by (simp add: drain_waiting.simps)
    next
      case True
      let ?q1 = "drain_waiting_body g (q\<lparr>waiting := rest\<rparr>)"
      have "drain_waiting cap q = drain_waiting cap ?q1"
        using Cons True by (subst drain_waiting.simps) simp
      moreover have "retry_count (state_of ?q1 c) = retry_count (state_of q c)"
        by (simp add: body_retry_count) (simp add: state_of_def)
      ultimately show ?thesis using "1.IH"[OF Cons True] by simp
    qed
  qed
qed

lemma drain_group_created:
  "\<exists>new. created (drain_group cap c q) = created q @ new \<and> (\<forall>k\<in>set new. \<not> is_retry k)"
proof -
  have g: "created (get_group c q) = created q"
    by (simp add: get_group_def split: option.splits)
  from drain_waiting_created[of cap "get_group c q"] g show ?thesis
    by (auto simp: drain_group_def Let_def put_state_def asyncio_create_task_def split: list.splits)
qed

lemma get_group_retry_count:
  "retry_count (state_of (get_group g q) c) = retry_count (state_of q c)"
  by (auto simp: basic_defs new_group_state_def split: option.splits)

lemma drain_group_retry_count:
  "retry_count (state_of (drain_group cap g q) c) = retry_count (state_of q c)"
  using get_group_retry_count[of g q c]
  by (auto simp: drain_group_def Let_def drain_waiting_retry_count split: list.splits)
    (auto simp: basic_defs split: option.splits if_splits)

lemma finally_created:
  "\<exists>new. created (finally_block cap c q) = created q @ new \<and> (\<forall>k\<in>set new. \<not> is_retry k)"
  using drain_group_created[of cap c "(put_state c
                 ((state_of q c)\<lparr>active := False, process := None, container_name := None,
                     group_folder := None\<rparr>) q)\<lparr>active_count := active_count q - 1\<rparr>"]
  by (simp add: finally_block_def Let_def put_state_def)

lemma finally_retry_count:
  "retry_count (state_of (finally_block cap g q) c) = retry_count (state_of q c)"
  by (simp add: finally_block_def Let_def drain_group_retry_count) (simp add: basic_defs)


lemma body_new_groups:
  "\<exists>new. created (drain_waiting_body g q) = created q @ new \<and> (\<forall>k\<in>set new. unit_of k = Some g)"
  by (auto simp: drain_waiting_body_def basic_defs split: option.splits list.splits)

lemma body_other_state: "g \<noteq> c \<Longrightarrow> state_of (drain_waiting_body g q) c = state_of q c"
  by (auto simp: drain_waiting_body_def basic_defs split: option.splits list.splits)

lemma drain_waiting_new_groups:
  "\<exists>new. created (drain_waiting cap q) = created q @ new \<and>
     (\<forall>k\<in>set new. \<exists>g\<in>set (waiting q). unit_of k = Some g)"
proof (induction cap q rule: drain_waiting.induct)
  case (1 cap q)
  show ?case
  proof (cases "waiting q")
    case Nil
    then show ?thesis by (simp add: drain_waiting.simps)
  next
    case (Cons g rest)
    show ?thesis
    proof (cases "active_count q < cap")
      case False
      with Cons show ?thesis by (simp add: drain_waiting.simps)
    next
      case True
      let ?q1 = "drain_waiting_body g (q\<lparr>waiting := rest\<rparr>)"
      have w: "waiting ?q1 = rest"
        by (simp add: drain_waiting_body_def basic_defs split: option.splits list.splits)
      from "1.IH"[OF Cons True] w obtain new where
        n: "created (drain_waiting cap ?q1) = created ?q1 @ new"
           "\<forall>k\<in>set new. \<exists>g\<in>set rest. unit_of k = Some g"
        by auto
      from body_new_groups[of g "q\<lparr>waiting := rest\<rparr>"] obtain new0 where
        n0: "created ?q1 = created q @ new0" "\<forall>k\<in>set new0. unit_of k = Some g"
        by auto
      have "drain_waiting cap q = drain_waiting cap ?q1"
        using Cons True by (subst drain_waiting.simps) simp
      with n n0 Cons show ?thesis by auto
    qed
  qed
qed

lemma drain_waiting_no_message_over_tasks:
  assumes "distinct (waiting q)" and "pending_tasks (state_of q c) \<noteq> []"
  shows "RunForGroup c \<notin> set (new_coros q (drain_waiting cap q))"
  using assms
proof (induction cap q rule: drain_waiting.induct)
  case (1 cap q)
  show ?case
  proof (cases "waiting q")
    case Nil
    then show ?thesis by (simp add: drain_waiting.simps new_coros_def)
  next
    case (Cons g rest)
    show ?thesis
    proof (cases "active_count q < cap")
      case False
      with Cons show ?thesis by (simp add: drain_waiting.simps new_coros_def)
    next
      case True
      let ?q0 = "q\<lparr>waiting := rest\<rparr>"
      let ?q1 = "drain_waiting_body g ?q0"
      have w: "waiting ?q1 = rest"
        by (simp add: drain_waiting_body_def basic_defs split: option.splits list.splits)
      have e: "drain_waiting cap q = drain_waiting cap ?q1"
        using Cons True by (subst drain_waiting.simps) simp
      have d: "distinct rest" "g \<notin> set rest" using "1.prems"(1) Cons by auto
      have s0: "state_of ?q0 c = state_of q c" by (simp add: state_of_def)
      show ?thesis
      proof (cases "g = c")
        case True
        have c1: "created ?q1 = created q @ [RunTask c (hd (pending_tasks (state_of q c)))]"
          using "1.prems"(2) True
          by (auto simp: drain_waiting_body_def basic_defs split: option.splits list.splits)
        from drain_waiting_new_groups[of cap ?q1] w obtain new where
          n: "created (drain_waiting cap ?q1) = created ?q1 @ new"
             "\<forall>k\<in>set new. \<exists>g\<in>set rest. unit_of k = Some g"
          by auto
        have "RunForGroup c \<notin> set new"
        proof
          assume "RunForGroup c \<in> set new"
          with n(2) obtain g' where "g' \<in> set rest" "unit_of (RunForGroup c) = Some g'" by blast
          with d(2) True show False by simp
        qed
        then show ?thesis by (simp add: e n(1) c1 new_coros_def)
      next
        case False
        have st: "pending_tasks (state_of ?q1 c) \<noteq> []"
          using body_other_state[OF False, of ?q0] s0 "1.prems"(2) by simp
        have ih: "RunForGroup c \<notin> set (new_coros ?q1 (drain_waiting cap ?q1))"
          using "1.IH"[OF Cons True] w d(1) st by simp
        from body_new_groups[of g ?q0] obtain new0 where
          n0: "created ?q1 = created q @ new0" "\<forall>k\<in>set new0. unit_of k = Some g"
          by auto
        from drain_waiting_new_groups[of cap ?q1] obtain new where
          n: "created (drain_waiting cap ?q1) = created ?q1 @ new"
          by auto
        have "RunForGroup c \<notin> set new0" using n0(2) False by auto
        moreover have "RunForGroup c \<notin> set new" using ih by (simp add: new_coros_def n)
        ultimately show ?thesis by (simp add: e n n0 new_coros_def)
      qed
    qed
  qed
qed

lemma get_group_state_of [simp]: "state_of (get_group g q) c = state_of q c"
  by (auto simp: basic_defs split: option.splits)

lemma get_group_fields [simp]:
  "created (get_group g q) = created q" "waiting (get_group g q) = waiting q"
  "shutting_down (get_group g q) = shutting_down q" "active_count (get_group g q) = active_count q"
  by (auto simp: basic_defs split: option.splits)


lemma drain_waiting_suffix: "\<exists>pre. waiting q = pre @ waiting (drain_waiting cap q)"
proof (induction cap q rule: drain_waiting.induct)
  case (1 cap q)
  show ?case
  proof (cases "waiting q")
    case Nil
    then show ?thesis by (simp add: drain_waiting.simps)
  next
    case (Cons g rest)
    show ?thesis
    proof (cases "active_count q < cap")
      case False
      with Cons show ?thesis by (simp add: drain_waiting.simps)
    next
      case True
      let ?q1 = "drain_waiting_body g (q\<lparr>waiting := rest\<rparr>)"
      have w: "waiting ?q1 = rest"
        by (simp add: drain_waiting_body_def basic_defs split: option.splits list.splits)
      have e: "drain_waiting cap q = drain_waiting cap ?q1"
        using Cons True by (subst drain_waiting.simps) simp
      from "1.IH"[OF Cons True] w obtain pre where "rest = pre @ waiting (drain_waiting cap ?q1)"
        by auto
      then have "waiting q = (g # pre) @ waiting (drain_waiting cap q)"
        using Cons e by simp
      then show ?thesis by blast
    qed
  qed
qed

lemma drain_waiting_distinct: "distinct (waiting q) \<Longrightarrow> distinct (waiting (drain_waiting cap q))"
  using drain_waiting_suffix[of q cap] by (metis distinct_append)

lemma drain_group_distinct: "distinct (waiting q) \<Longrightarrow> distinct (waiting (drain_group cap c q))"
  using drain_waiting_distinct[of "get_group c q" cap]
  by (auto simp: drain_group_def Let_def put_state_def asyncio_create_task_def split: list.splits)

lemma finally_block_distinct: "distinct (waiting q) \<Longrightarrow> distinct (waiting (finally_block cap c q))"
  by (simp add: finally_block_def Let_def drain_group_distinct put_state_def)

lemma enqueue_message_check_distinct:
  "distinct (waiting q) \<Longrightarrow> distinct (waiting (enqueue_message_check cap c q))"
  by (auto simp: enqueue_message_check_def Let_def put_state_def asyncio_create_task_def append_waiting_def)

lemma enqueue_task_distinct:
  "distinct (waiting q) \<Longrightarrow> distinct (waiting (enqueue_task cap c t q))"
  by (auto simp: enqueue_task_def Let_def put_state_def asyncio_create_task_def append_waiting_def)

lemma schedule_retry_waiting: "waiting (schedule_retry c q) = waiting q"
  by (simp add: schedule_retry_def Let_def put_state_def asyncio_create_task_def)

lemma step_distinct: "distinct (waiting q) \<Longrightarrow> distinct (waiting (step cap q e))"
proof (cases e)
  case (EnqueueMessageCheck c)
  assume "distinct (waiting q)"
  then show ?thesis using EnqueueMessageCheck by (simp add: step_def enqueue_message_check_distinct)
next
  case (EnqueueTask c t)
  assume "distinct (waiting q)"
  then show ?thesis using EnqueueTask by (simp add: step_def enqueue_task_distinct)
next
  case Begin
  assume d: "distinct (waiting q)"
  show ?thesis
  proof (cases "created q")
    case Nil
    with d Begin show ?thesis by (simp add: step_def)
  next
    case (Cons k ks)
    let ?q = "q\<lparr>created := ks\<rparr>"
    have "distinct (waiting (begin_coro cap k ?q))"
    proof (cases k)
      case (RunForGroup c)
      have "distinct (waiting (run_for_group_begin c ?q))"
        using d by (simp add: run_for_group_begin_def Let_def put_state_def)
      then show ?thesis using RunForGroup
        by (simp add: begin_coro_def finally_block_distinct)
    next
      case (RunTask c t)
      then show ?thesis using d
        by (simp add: begin_coro_def run_task_begin_def Let_def put_state_def)
    next
      case (Retry r c)
      then show ?thesis using d by (simp add: begin_coro_def)
    qed
    with Begin Cons show ?thesis by (simp add: step_def)
  qed
next
  case (Finish i r)
  assume d: "distinct (waiting q)"
  let ?q = "q\<lparr>running := remove_nth i (running q)\<rparr>"
  have dq: "distinct (waiting ?q)" using d by simp
  have "distinct (waiting (finish_coro cap k r ?q))" for k
  proof (cases k)
    case (RunForGroup c)
    have "distinct (waiting (schedule_retry c ?q))" using d by (simp add: schedule_retry_waiting)
    moreover have "distinct (waiting (put_state c ((state_of ?q c)\<lparr>retry_count := 0\<rparr>) ?q))"
      using d by (simp add: put_state_def)
    ultimately show ?thesis using RunForGroup
      by (cases r) (simp_all add: finish_coro_def run_for_group_end_def finally_block_distinct)
  next
    case (RunTask c t)
    then show ?thesis using dq by (simp add: finish_coro_def run_task_end_def finally_block_distinct)
  next
    case (Retry r c)
    then show ?thesis using dq
      by (simp add: finish_coro_def retry_end_def enqueue_message_check_distinct)
  qed
  with Finish d show ?thesis by (simp add: step_def)
next
  case Shutdown
  assume "distinct (waiting q)"
  then show ?thesis using Shutdown by (simp add: step_def shutdown_def)
qed

lemma run_events_waiting_distinct:
  "distinct (waiting q) \<Longrightarrow> distinct (waiting (run_events cap q es))"
  unfolding run_events_def by (induction es arbitrary: q) (simp_all add: step_distinct)

lemma reachable_waiting_distinct:
  "distinct (waiting (run_events cap init_queue es))"
  "distinct (waiting (run_events cap (set_process_messages_fn init_queue) es))"
  by (simp_all add: run_events_waiting_distinct init_queue_def set_process_messages_fn_def)

lemmas gq_defs = run_events_def step_def enqueue_message_check_def enqueue_task_def get_group_def
  state_of_def put_state_def asyncio_create_task_def append_waiting_def begin_coro_def
  run_for_group_begin_def run_task_begin_def init_queue_def set_process_messages_fn_def
  new_group_state_def Let_def active_units_def active_units_of_def finish_coro_def
  run_for_group_end_def run_task_end_def finally_block_def drain_group_def
  drain_waiting_body_def remove_nth_def schedule_retry_def retry_end_def shutdown_def
  MAX_RETRIES_def
  BASE_RETRY_SECONDS_def queue0_def new_coros_def

subsection \<open>The global cap (claim C1)\<close>

text \<open>
  Claim C1: for every sequence of \<open>enqueue_message_check\<close> and \<open>enqueue_task\<close> calls the
  number of simultaneously active units of work never exceeds \<open>MAX_CONCURRENT_CONTAINERS\<close>.

  The code does not keep this.  The admission test reads \<open>_active_count\<close>, but the counter
  is incremented only when the created coroutine begins, which is after the caller has
  returned to the event loop.  With the cap at 2 (the value the test suite uses), three
  calls for three groups made without a suspension point in between all pass the test, and
  once the loop has begun the three coroutines the counter is 3 and three units of work are
  active.
\<close>

theorem active_count_exceeds_cap:
  "active_count (run_events 2 queue0 burst_trace) = 3 \<and>
   active_units (run_events 2 queue0 burst_trace) =
     [RunForGroup ''g1'', RunForGroup ''g2'', RunForGroup ''g3'']"
  by (simp add: burst_trace_def gq_defs)

text \<open>
  The same defect shows in \<open>_drain_waiting\<close> even when every created coroutine begins
  before the next call: its loop tests a counter that the coroutines it creates have not
  yet incremented, so one free slot releases every waiting group.
\<close>

lemma drain_waiting_overshoots_cap:
  "active_count (run_events 2 queue0 waiting_trace) = 3 \<and>
   active_units (run_events 2 queue0 waiting_trace) =
     [RunForGroup ''g2'', RunForGroup ''g3'', RunForGroup ''g4'']"
  by (simp add: waiting_trace_def gq_defs drain_waiting.simps)

subsection \<open>One unit of work per group (claim C2)\<close>

text \<open>
  Claim C2: for every group and every interleaving of \<open>enqueue_message_check\<close> and
  \<open>enqueue_task\<close> calls, at most one unit of work is active for that group at any instant,
  and the group's \<open>active\<close> flag is true for at most the duration of exactly one
  outstanding unit of work.

  The code does not keep this, for the reason given for C1: \<open>active\<close> is set when the
  created coroutine begins, not when it is created.  Two due tasks of one group enqueued by
  one pass of the scheduler loop both find the group inactive; both coroutines begin, and
  two units of work of the group are active.  When the first ends, the flag is cleared
  while the second is still running.
\<close>

theorem two_units_for_one_group:
  "active_units_of ''g1'' (run_events 2 queue0 same_group_trace) =
     [RunTask ''g1'' ''t1'', RunTask ''g1'' ''t2''] \<and>
   active_units_of ''g1'' (run_events 2 queue0 (same_group_trace @ [Finish 0 Success])) =
     [RunTask ''g1'' ''t2''] \<and>
   \<not> active (state_of (run_events 2 queue0 (same_group_trace @ [Finish 0 Success])) ''g1'')"
  by (simp add: same_group_trace_def gq_defs drain_waiting.simps)

subsection \<open>Retry with exponential backoff (claim C5)\<close>

text \<open>
  Claim C5: when the message-check callback of a group reports failure (it returns false
  or raises), a retry of \<open>enqueue_message_check\<close> for the group is scheduled after
  \<open>BASE_RETRY_SECONDS * 2 ^ (retry_count - 1)\<close> seconds, \<open>retry_count\<close> being the count
  after the increment, so that successive failures give the delays base, 2 base, 4 base
  and so on; when five retries have been made, the next failure resets \<open>retry_count\<close> to
  zero and schedules no retry.

  The statement is about the part of \<open>_run_for_group\<close> that follows the callback, with
  any failing outcome and any state of the queue: exactly one retry timer is created, for
  this group and with this delay, as long as the count before the failure is below
  \<open>MAX_RETRIES\<close>, and none otherwise.  And it says what a retry timer of the group does in
  the event loop, in any state: when it begins it only goes to sleep, and when its sleep
  is over (\<open>Finish\<close>) the step is the call \<open>enqueue_message_check\<close> for the group (which
  does nothing while the queue is shutting down, as the timer's own test says).
\<close>

theorem retry_backoff:
  assumes "r \<noteq> Success"
  shows "filter is_retry (new_coros q (run_for_group_end cap c r q)) =
           (if retry_count (state_of q c) < MAX_RETRIES
            then [Retry (BASE_RETRY_SECONDS * 2 ^ ((retry_count (state_of q c) + 1) - 1)) c]
            else []) \<and>
         retry_count (state_of (run_for_group_end cap c r q) c) =
           (if retry_count (state_of q c) < MAX_RETRIES then retry_count (state_of q c) + 1
            else 0) \<and>
         (created q' = Retry d c # ks \<longrightarrow>
            step cap q' Begin = q'\<lparr>created := ks, running := running q' @ [Retry d c]\<rparr>) \<and>
         (i < length (running q') \<and> running q' ! i = Retry d c \<longrightarrow>
            step cap q' (Finish i r') =
              enqueue_message_check cap c (q'\<lparr>running := remove_nth i (running q')\<rparr>))"
proof -
  have e: "run_for_group_end cap c r q = finally_block cap c (schedule_retry c q)"
    using assms by (cases r) (simp_all add: run_for_group_end_def)
  obtain new where
    n: "created (finally_block cap c (schedule_retry c q)) = created (schedule_retry c q) @ new"
       "\<forall>k\<in>set new. \<not> is_retry k"
    using finally_created by blast
  have f: "filter is_retry new = []"
    using n(2) by (induction new) auto
  have "filter is_retry (new_coros q (run_for_group_end cap c r q)) =
           (if retry_count (state_of q c) < MAX_RETRIES
            then [Retry (BASE_RETRY_SECONDS * 2 ^ ((retry_count (state_of q c) + 1) - 1)) c]
            else [])"
    unfolding e new_coros_def n(1) using f
    by (simp add: schedule_retry_def Let_def put_state_def asyncio_create_task_def)
  moreover have "retry_count (state_of (run_for_group_end cap c r q) c) =
           (if retry_count (state_of q c) < MAX_RETRIES then retry_count (state_of q c) + 1
            else 0)"
    unfolding e finally_retry_count
    by (simp add: schedule_retry_def Let_def put_state_def asyncio_create_task_def state_of_def)
  moreover have "step cap q' Begin = q'\<lparr>created := ks, running := running q' @ [Retry d c]\<rparr>"
    if "created q' = Retry d c # ks"
    using that by (simp add: step_def begin_coro_def)
  moreover have "step cap q' (Finish i r') =
              enqueue_message_check cap c (q'\<lparr>running := remove_nth i (running q')\<rparr>)"
    if "i < length (running q')" "running q' ! i = Retry d c"
    using that by (simp add: step_def finish_coro_def retry_end_def enqueue_message_check_def)
  ultimately show ?thesis by blast
qed

theorem retry_backoff_witness:
  "Failure \<noteq> Success \<and>
   filter is_retry
     (new_coros (run_for_group_begin ''g1'' queue0)
        (run_for_group_end 2 ''g1'' Failure (run_for_group_begin ''g1'' queue0))) =
     [Retry 5 ''g1''] \<and>
   retry_count
     (state_of (run_for_group_end 2 ''g1'' Failure (run_for_group_begin ''g1'' queue0)) ''g1'') = 1 \<and>
   created (after_failures 0) = Retry 5 ''g1'' # [] \<and>
   step 2 (after_failures 0) Begin =
     (after_failures 0)\<lparr>created := [], running := running (after_failures 0) @ [Retry 5 ''g1'']\<rparr> \<and>
   0 < length (running (step 2 (after_failures 0) Begin)) \<and>
   running (step 2 (after_failures 0) Begin) ! 0 = Retry 5 ''g1'' \<and>
   step 2 (step 2 (after_failures 0) Begin) (Finish 0 Success) =
     enqueue_message_check 2 ''g1''
       ((step 2 (after_failures 0) Begin)
          \<lparr>running := remove_nth 0 (running (step 2 (after_failures 0) Begin))\<rparr>) \<and>
   created (step 2 (step 2 (after_failures 0) Begin) (Finish 0 Success)) = [RunForGroup ''g1'']"
proof -
  have h: "created (after_failures 0) = Retry 5 ''g1'' # []"
    "0 < length (running (step 2 (after_failures 0) Begin))"
    "running (step 2 (after_failures 0) Begin) ! 0 = Retry 5 ''g1''"
    by (simp_all add: after_failures_def gq_defs drain_waiting.simps)
  have a: "filter is_retry
     (new_coros (run_for_group_begin ''g1'' queue0)
        (run_for_group_end 2 ''g1'' Failure (run_for_group_begin ''g1'' queue0))) =
     [Retry 5 ''g1''] \<and>
   retry_count
     (state_of (run_for_group_end 2 ''g1'' Failure (run_for_group_begin ''g1'' queue0)) ''g1'') = 1 \<and>
   step 2 (after_failures 0) Begin =
     (after_failures 0)\<lparr>created := [], running := running (after_failures 0) @ [Retry 5 ''g1'']\<rparr>"
    using h(1)
      retry_backoff [where r = Failure and q = "run_for_group_begin ''g1'' queue0" and cap = 2
        and c = "''g1''" and q' = "after_failures 0" and d = 5 and ks = "[]"]
    by (simp add: gq_defs)
  have b: "step 2 (step 2 (after_failures 0) Begin) (Finish 0 Success) =
     enqueue_message_check 2 ''g1''
       ((step 2 (after_failures 0) Begin)
          \<lparr>running := remove_nth 0 (running (step 2 (after_failures 0) Begin))\<rparr>)"
    using h(2,3)
      retry_backoff [where r = Failure and q = "run_for_group_begin ''g1'' queue0" and cap = 2
        and c = "''g1''" and q' = "step 2 (after_failures 0) Begin" and d = 5 and i = 0
        and r' = Success]
    by blast
  have c: "created (step 2 (step 2 (after_failures 0) Begin) (Finish 0 Success)) =
             [RunForGroup ''g1'']"
    by (simp add: after_failures_def gq_defs drain_waiting.simps)
  from h a b c show ?thesis by simp
qed

text \<open>
  Six failures in a row, each retry timer firing before the next run: the timers created
  are for 5, 10, 20, 40 and 80 seconds, and the sixth failure creates none and resets the
  count.
\<close>

lemma six_failures_in_a_row:
  "map (\<lambda>k. (created (after_failures k), retry_count (state_of (after_failures k) ''g1'')))
     [0, 1, 2, 3, 4, 5] =
   [([Retry 5 ''g1''], 1), ([Retry 10 ''g1''], 2), ([Retry 20 ''g1''], 3),
    ([Retry 40 ''g1''], 4), ([Retry 80 ''g1''], 5), ([], 0)]"
  by (simp add: after_failures_def failure_round_def gq_defs drain_waiting.simps numeral_eq_Suc)

subsection \<open>Tasks before message checks (claim C8)\<close>

text \<open>
  Claim C8: whenever a unit of work of a group completes while the group has both queued
  task work and a pending message-check flag, the oldest queued task is started next; a
  message-check run for a group is never started at drain time while that group still has
  queued task work.

  As stated the first half fails: \<open>_drain_group\<close> returns at once when the queue is
  shutting down, and nothing is started then or later.
\<close>

theorem drain_skipped_when_shutting_down:
  "pending_tasks (state_of (run_events 2 queue0 busy_trace) ''g1'') = [''t1''] \<and>
   pending_messages (state_of (run_events 2 queue0 busy_trace) ''g1'') \<and>
   running (run_events 2 queue0 busy_trace) = [RunForGroup ''g1''] \<and>
   created (run_events 2 queue0 shutdown_trace) = [] \<and>
   running (run_events 2 queue0 shutdown_trace) = [] \<and>
   pending_tasks (state_of (run_events 2 queue0 shutdown_trace) ''g1'') = [''t1'']"
  by (simp add: shutdown_trace_def busy_trace_def gq_defs drain_waiting.simps)

text \<open>
  Claim C8, amended: while the queue is not shutting down, the \<open>finally\<close> block that ends
  a unit of work of a group with queued task work creates exactly one coroutine, the run of
  the oldest queued task, and takes it off the queue; and no message-check run is created
  there for any group that has queued task work.  When the queue is shutting down the
  \<open>finally\<close> block creates no coroutine at all, and leaves the waiting list and the
  queued tasks as they are.  (The waiting list never holds a group twice, see
  \<open>reachable_waiting_distinct\<close>.)
\<close>

theorem drain_tasks_before_messages:
  "(shutting_down q \<longrightarrow>
      new_coros q (finally_block cap c q) = [] \<and>
      waiting (finally_block cap c q) = waiting q \<and>
      pending_tasks (state_of (finally_block cap c q) c) = pending_tasks (state_of q c)) \<and>
   (\<not> shutting_down q \<and> pending_tasks (state_of q c) = t # ts \<longrightarrow>
      new_coros q (finally_block cap c q) = [RunTask c t] \<and>
      pending_tasks (state_of (finally_block cap c q) c) = ts) \<and>
   (distinct (waiting q) \<longrightarrow>
      (\<forall>g. pending_tasks (state_of q g) \<noteq> [] \<longrightarrow>
         RunForGroup g \<notin> set (new_coros q (finally_block cap c q))))"
proof -
  let ?st = "(state_of q c)\<lparr>active := False, process := None, container_name := None,
                     group_folder := None\<rparr>"
  let ?q1 = "(put_state c ?st q)\<lparr>active_count := active_count q - 1\<rparr>"
  have f: "finally_block cap c q = drain_group cap c ?q1"
    by (simp add: finally_block_def Let_def put_state_def)
  have sq: "shutting_down ?q1 = shutting_down q" by (simp add: put_state_def)
  have cr: "created ?q1 = created q" by (simp add: put_state_def)
  have wt: "waiting ?q1 = waiting q" by (simp add: put_state_def)
  have pt: "pending_tasks (state_of ?q1 g) = pending_tasks (state_of q g)" for g
    by (simp add: put_state_def state_of_def)
  have pm: "pending_messages (state_of ?q1 g) = pending_messages (state_of q g)" for g
    by (simp add: put_state_def state_of_def)
  have s: "new_coros q (finally_block cap c q) = [] \<and>
      waiting (finally_block cap c q) = waiting q \<and>
      pending_tasks (state_of (finally_block cap c q) c) = pending_tasks (state_of q c)"
    if "shutting_down q"
    using that sq pt[of c] unfolding f
    by (simp add: drain_group_def new_coros_def cr wt)
  have a: "new_coros q (finally_block cap c q) = [RunTask c t] \<and>
            pending_tasks (state_of (finally_block cap c q) c) = ts"
    if "\<not> shutting_down q" "pending_tasks (state_of q c) = t # ts" for t ts
    using that sq pt[of c] unfolding f
    by (simp add: drain_group_def Let_def new_coros_def asyncio_create_task_def cr put_state_def)
       (simp add: state_of_def)
  have b: "RunForGroup g \<notin> set (new_coros q (finally_block cap c q))"
    if d: "distinct (waiting q)" and "pending_tasks (state_of q g) \<noteq> []" for g
  proof (cases "shutting_down q")
    case True
    from s[OF True] show ?thesis by simp
  next
    case sd0: False
    then have sd: "\<not> shutting_down ?q1" using sq by simp
    show ?thesis
  proof (cases "pending_tasks (state_of q c)")
    case (Cons t' ts')
    from a[OF sd0 Cons] show ?thesis by simp
  next
    case Nil
    with that have gc: "g \<noteq> c" by auto
    let ?q2 = "get_group c ?q1"
    show ?thesis
    proof (cases "pending_messages (state_of q c)")
      case True
      then have "new_coros q (finally_block cap c q) = [RunForGroup c]"
        using sd Nil pt[of c] pm[of c] unfolding f
        by (simp add: drain_group_def Let_def new_coros_def asyncio_create_task_def cr)
      with gc show ?thesis by simp
    next
      case False
      then have e: "finally_block cap c q = drain_waiting cap ?q2"
        using sd Nil pt[of c] pm[of c] unfolding f
        by (simp add: drain_group_def Let_def)
      have "RunForGroup g \<notin> set (new_coros ?q2 (drain_waiting cap ?q2))"
        by (rule drain_waiting_no_message_over_tasks) (use d wt that pt[of g] in simp_all)
      then show ?thesis by (simp add: e new_coros_def cr)
    qed
  qed
  qed
  from s a b show ?thesis by blast
qed

theorem drain_tasks_before_messages_witness:
  "\<not> shutting_down (run_events 2 queue0 busy_trace) \<and>
   distinct (waiting (run_events 2 queue0 busy_trace)) \<and>
   pending_tasks (state_of (run_events 2 queue0 busy_trace) ''g1'') = [''t1''] \<and>
   new_coros (run_events 2 queue0 busy_trace)
     (finally_block 2 ''g1'' (run_events 2 queue0 busy_trace)) = [RunTask ''g1'' ''t1''] \<and>
   pending_tasks
     (state_of (finally_block 2 ''g1'' (run_events 2 queue0 busy_trace)) ''g1'') = [] \<and>
   RunForGroup ''g1'' \<notin>
     set (new_coros (run_events 2 queue0 busy_trace)
            (finally_block 2 ''g1'' (run_events 2 queue0 busy_trace))) \<and>
   shutting_down (run_events 2 queue0 queued_at_shutdown) \<and>
   waiting (run_events 2 queue0 queued_at_shutdown) = [''g3''] \<and>
   pending_tasks (state_of (run_events 2 queue0 queued_at_shutdown) ''g1'') = [''t1''] \<and>
   new_coros (run_events 2 queue0 queued_at_shutdown)
     (finally_block 2 ''g1'' (run_events 2 queue0 queued_at_shutdown)) = [] \<and>
   waiting (finally_block 2 ''g1'' (run_events 2 queue0 queued_at_shutdown)) = [''g3''] \<and>
   pending_tasks
     (state_of (finally_block 2 ''g1'' (run_events 2 queue0 queued_at_shutdown)) ''g1'') =
     [''t1'']"
proof -
  have h: "\<not> shutting_down (run_events 2 queue0 busy_trace)"
    "distinct (waiting (run_events 2 queue0 busy_trace))"
    "pending_tasks (state_of (run_events 2 queue0 busy_trace) ''g1'') = [''t1'']"
    by (simp_all add: busy_trace_def gq_defs)
  have k: "shutting_down (run_events 2 queue0 queued_at_shutdown)"
    "waiting (run_events 2 queue0 queued_at_shutdown) = [''g3'']"
    "pending_tasks (state_of (run_events 2 queue0 queued_at_shutdown) ''g1'') = [''t1'']"
    by (simp_all add: queued_at_shutdown_def gq_defs)
  from drain_tasks_before_messages
         [where q = "run_events 2 queue0 busy_trace" and c = "''g1''" and t = "''t1''"
            and ts = "[]" and cap = 2] h
  have a: "new_coros (run_events 2 queue0 busy_trace)
     (finally_block 2 ''g1'' (run_events 2 queue0 busy_trace)) = [RunTask ''g1'' ''t1''] \<and>
   pending_tasks
     (state_of (finally_block 2 ''g1'' (run_events 2 queue0 busy_trace)) ''g1'') = [] \<and>
   RunForGroup ''g1'' \<notin>
     set (new_coros (run_events 2 queue0 busy_trace)
            (finally_block 2 ''g1'' (run_events 2 queue0 busy_trace)))"
    by simp
  from drain_tasks_before_messages
         [where q = "run_events 2 queue0 queued_at_shutdown" and c = "''g1''" and cap = 2] k
  have b: "new_coros (run_events 2 queue0 queued_at_shutdown)
     (finally_block 2 ''g1'' (run_events 2 queue0 queued_at_shutdown)) = [] \<and>
   waiting (finally_block 2 ''g1'' (run_events 2 queue0 queued_at_shutdown)) = [''g3''] \<and>
   pending_tasks
     (state_of (finally_block 2 ''g1'' (run_events 2 queue0 queued_at_shutdown)) ''g1'') =
     [''t1'']"
    by simp
  from h k a b show ?thesis by simp
qed

section \<open>Properties of the IPC bus and the job store\<close>

lemmas ipc_defs = process_task_ipc_def dispatch_task_file_def process_task_file_def
  calculate_next_run_def create_task_def truthy_def py_or_def MAIN_GROUP_FOLDER_def Let_def
  spec_valid_schedule_def sample_env_def sample_groups_def sample_state_def request_def

subsection \<open>Authorization of \<open>schedule_task\<close> (claim C3)\<close>

text \<open>
  Claim C3: a \<open>schedule_task\<close> request read from a non-main mailbox whose target chat
  resolves to a registered group with another folder creates no job and leaves the store
  as it was; the identical request read from the main mailbox, with a registered target and
  a valid schedule, creates exactly one new job.

  As stated the second half fails: \<open>process_task_ipc\<close> first returns when any of prompt,
  schedule type, schedule value or target is missing or empty.  The request below has an
  empty prompt, a registered target and a valid schedule; it creates no job from the
  mailbox of another group, and none from the main mailbox either.
\<close>

theorem no_prompt_no_job_from_main:
  "map_of (registered sample_state) ''-100main'' =
     Some \<lparr>rg_name = ''Main'', folder = ''main'', trigger = ''always'', added_at = ''2024-01-01''\<rparr> \<and>
   spec_valid_schedule sample_env ''interval'' ''3600000'' \<and>
   dispatch_task_file sample_env no_prompt_request ''other-group'' sample_state = Inr sample_state \<and>
   dispatch_task_file sample_env no_prompt_request ''main'' sample_state = Inr sample_state"
  by (simp add: ipc_defs no_prompt_request_def)

lemma calculate_next_run_valid:
  "spec_valid_schedule env stype sval \<Longrightarrow> \<exists>n. calculate_next_run env stype sval = NextRun (Some n)"
  by (auto simp: spec_valid_schedule_def calculate_next_run_def split: if_splits option.splits)

text \<open>
  Claim C3, amended: for a \<open>schedule_task\<close> request, (1) when its target chat resolves to
  a registered group and it is read from a non-main mailbox whose name differs from the
  folder of that group, it is dropped and the state is unchanged; (2) when its target chat
  resolves to a registered group and it is read from the main mailbox, carries a non-empty
  prompt and target and a valid schedule, and the generated id is not in the store, it
  appends exactly one job to the store: the job has the generated id, the folder of the
  target group, the fields of the request, status \<open>active\<close> and a next run; (3) when its
  prompt, its schedule type, its schedule value or its target (both \<open>targetChatId\<close> and
  \<open>targetJid\<close>) is missing or empty, it is dropped and the state is unchanged, whatever
  mailbox it is read from and whether or not that mailbox is taken as the main one.
\<close>

theorem schedule_task_authorization:
  assumes "data ''type'' = Some ''schedule_task''"
  shows "(py_or (data ''targetChatId'') (data ''targetJid'') = Some target \<and>
          map_of (registered s) target = Some g \<and>
          source_group \<noteq> MAIN_GROUP_FOLDER \<and> folder g \<noteq> source_group \<longrightarrow>
            dispatch_task_file env data source_group s = Inr s) \<and>
         (py_or (data ''targetChatId'') (data ''targetJid'') = Some target \<and>
          map_of (registered s) target = Some g \<and>
          target \<noteq> [] \<and> data ''prompt'' = Some p \<and> p \<noteq> [] \<and>
          data ''schedule_type'' = Some stype \<and> data ''schedule_value'' = Some sval \<and>
          spec_valid_schedule env stype sval \<and> new_task_id env \<notin> set (map tid (tasks s)) \<longrightarrow>
            (\<exists>t. dispatch_task_file env data MAIN_GROUP_FOLDER s = Inr (s\<lparr>tasks := tasks s @ [t]\<rparr>) \<and>
                 tid t = new_task_id env \<and> task_group_folder t = folder g \<and>
                 task_chat_id t = target \<and> prompt t = p \<and> schedule_type t = stype \<and>
                 schedule_value t = sval \<and> status t = ''active'' \<and> next_run t \<noteq> None)) \<and>
         (data ''prompt'' = None \<or> data ''prompt'' = Some [] \<or>
          data ''schedule_type'' = None \<or> data ''schedule_type'' = Some [] \<or>
          data ''schedule_value'' = None \<or> data ''schedule_value'' = Some [] \<or>
          ((data ''targetChatId'' = None \<or> data ''targetChatId'' = Some []) \<and>
           (data ''targetJid'' = None \<or> data ''targetJid'' = Some [])) \<longrightarrow>
            process_task_ipc env data source_group is_main s = Inr s \<and>
            dispatch_task_file env data source_group s = Inr s)"
proof (intro conjI impI)
  assume "py_or (data ''targetChatId'') (data ''targetJid'') = Some target \<and>
          map_of (registered s) target = Some g \<and>
          source_group \<noteq> MAIN_GROUP_FOLDER \<and> folder g \<noteq> source_group"
  then show "dispatch_task_file env data source_group s = Inr s"
    using assms by (simp add: dispatch_task_file_def process_task_ipc_def Let_def)
next
  assume h: "py_or (data ''targetChatId'') (data ''targetJid'') = Some target \<and>
          map_of (registered s) target = Some g \<and>
          target \<noteq> [] \<and> data ''prompt'' = Some p \<and> p \<noteq> [] \<and>
          data ''schedule_type'' = Some stype \<and> data ''schedule_value'' = Some sval \<and>
          spec_valid_schedule env stype sval \<and> new_task_id env \<notin> set (map tid (tasks s))"
  then obtain n where n: "calculate_next_run env stype sval = NextRun (Some n)"
    using calculate_next_run_valid by blast
  have ne: "stype \<noteq> []" "sval \<noteq> []"
    using h by (auto simp: spec_valid_schedule_def split: if_splits)
  let ?cm = "case data ''context_mode'' of None \<Rightarrow> ''isolated'' | Some m \<Rightarrow> m"
  let ?t = "\<lparr>tid = new_task_id env, task_group_folder = folder g, task_chat_id = target,
             prompt = p, schedule_type = stype, schedule_value = sval,
             context_mode = (if ?cm = ''group'' \<or> ?cm = ''isolated'' then ?cm else ''isolated''),
             next_run = Some n, status = ''active'', created_at = now_iso env,
             last_run = None, last_result = None\<rparr>"
  have "dispatch_task_file env data MAIN_GROUP_FOLDER s = Inr (s\<lparr>tasks := tasks s @ [?t]\<rparr>)"
    using assms h n ne
    by (simp add: dispatch_task_file_def process_task_ipc_def Let_def truthy_def create_task_def)
  then show "\<exists>t. dispatch_task_file env data MAIN_GROUP_FOLDER s = Inr (s\<lparr>tasks := tasks s @ [t]\<rparr>) \<and>
                 tid t = new_task_id env \<and> task_group_folder t = folder g \<and>
                 task_chat_id t = target \<and> prompt t = p \<and> schedule_type t = stype \<and>
                 schedule_value t = sval \<and> status t = ''active'' \<and> next_run t \<noteq> None"
    by (intro exI [of _ ?t]) simp
next
  assume m: "data ''prompt'' = None \<or> data ''prompt'' = Some [] \<or>
          data ''schedule_type'' = None \<or> data ''schedule_type'' = Some [] \<or>
          data ''schedule_value'' = None \<or> data ''schedule_value'' = Some [] \<or>
          ((data ''targetChatId'' = None \<or> data ''targetChatId'' = Some []) \<and>
           (data ''targetJid'' = None \<or> data ''targetJid'' = Some []))"
  then have "\<not> (truthy (data ''prompt'') \<and> truthy (data ''schedule_type'') \<and>
               truthy (data ''schedule_value'') \<and>
               truthy (py_or (data ''targetChatId'') (data ''targetJid'')))"
    by (auto simp: truthy_def py_or_def)
  then have r: "process_task_ipc env data src im s = Inr s" for src im
    using assms by (simp add: process_task_ipc_def Let_def)
  show "process_task_ipc env data source_group is_main s = Inr s" by (rule r)
  show "dispatch_task_file env data source_group s = Inr s"
    by (simp add: dispatch_task_file_def r)
qed

theorem schedule_task_authorization_witness:
  "interval_request ''type'' = Some ''schedule_task'' \<and>
   py_or (interval_request ''targetChatId'') (interval_request ''targetJid'') = Some ''-100main'' \<and>
   map_of (registered sample_state) ''-100main'' =
     Some \<lparr>rg_name = ''Main'', folder = ''main'', trigger = ''always'', added_at = ''2024-01-01''\<rparr> \<and>
   ''other-group'' \<noteq> MAIN_GROUP_FOLDER \<and>
   spec_valid_schedule sample_env ''interval'' ''3600000'' \<and>
   new_task_id sample_env \<notin> set (map tid (tasks sample_state)) \<and>
   dispatch_task_file sample_env interval_request ''other-group'' sample_state = Inr sample_state \<and>
   (\<exists>t. dispatch_task_file sample_env interval_request MAIN_GROUP_FOLDER sample_state =
           Inr (sample_state\<lparr>tasks := tasks sample_state @ [t]\<rparr>) \<and>
        tid t = new_task_id sample_env \<and> task_group_folder t = ''main'' \<and> status t = ''active'' \<and>
        next_run t \<noteq> None) \<and>
   no_target_request ''type'' = Some ''schedule_task'' \<and>
   no_target_request ''targetChatId'' = None \<and> no_target_request ''targetJid'' = None \<and>
   process_task_ipc sample_env no_target_request ''other-group'' True sample_state =
     Inr sample_state \<and>
   dispatch_task_file sample_env no_target_request MAIN_GROUP_FOLDER sample_state =
     Inr sample_state"
proof -
  let ?g = "\<lparr>rg_name = ''Main'', folder = ''main'', trigger = ''always'', added_at = ''2024-01-01''\<rparr>"
  have h: "interval_request ''type'' = Some ''schedule_task''"
    by (simp add: interval_request_def ipc_defs)
  have h': "py_or (interval_request ''targetChatId'') (interval_request ''targetJid'') = Some ''-100main''"
    "map_of (registered sample_state) ''-100main'' = Some ?g"
    by (simp_all add: interval_request_def ipc_defs)
  have k: "''other-group'' \<noteq> MAIN_GROUP_FOLDER"
    "spec_valid_schedule sample_env ''interval'' ''3600000''"
    "new_task_id sample_env \<notin> set (map tid (tasks sample_state))"
    by (simp_all add: ipc_defs)
  have d: "interval_request ''prompt'' = Some ''water the plants''"
    "interval_request ''schedule_type'' = Some ''interval''"
    "interval_request ''schedule_value'' = Some ''3600000''"
    by (simp_all add: interval_request_def request_def)
  have f: "folder ?g \<noteq> ''other-group''" "folder ?g = ''main''" by simp_all
  note t = schedule_task_authorization [where data = interval_request
      and source_group = "''other-group''"
      and p = "''water the plants''" and stype = "''interval''" and sval = "''3600000''"
      and env = sample_env and target = "''-100main''" and g = ?g and s = sample_state, OF h]
  have a: "dispatch_task_file sample_env interval_request ''other-group'' sample_state =
             Inr sample_state"
    using t h' k(1) f(1) by blast
  have b: "\<exists>t. dispatch_task_file sample_env interval_request MAIN_GROUP_FOLDER sample_state =
           Inr (sample_state\<lparr>tasks := tasks sample_state @ [t]\<rparr>) \<and>
        tid t = new_task_id sample_env \<and> task_group_folder t = ''main'' \<and> status t = ''active'' \<and>
        next_run t \<noteq> None"
    using t h' k d f(2) by (metis list.simps(3))
  have n: "no_target_request ''type'' = Some ''schedule_task''"
    by (simp add: no_target_request_def request_def)
  have n': "no_target_request ''targetChatId'' = None" "no_target_request ''targetJid'' = None"
    by (simp_all add: no_target_request_def request_def)
  have c: "process_task_ipc sample_env no_target_request ''other-group'' True sample_state =
             Inr sample_state"
    using schedule_task_authorization [where data = no_target_request
      and source_group = "''other-group''"
      and is_main = True and env = sample_env and s = sample_state, OF n] n'
    by blast
  have e: "dispatch_task_file sample_env no_target_request MAIN_GROUP_FOLDER sample_state =
             Inr sample_state"
    using schedule_task_authorization [where data = no_target_request
      and source_group = MAIN_GROUP_FOLDER
      and env = sample_env and s = sample_state, OF n] n'
    by blast
  show ?thesis using h h' k a b n n' c e by blast
qed

subsection \<open>Invalid schedule specifications (claim C9)\<close>

text \<open>
  Claim C9: a \<open>schedule_task\<close> request with an invalid schedule specification of any
  kind (an interval that is zero or negative, an invalid cron expression, a \<open>once\<close> value
  that does not parse, an unrecognized schedule kind) is rejected at creation time and no
  job is persisted.

  The code does not keep this for an unrecognized kind: the \<open>if\<close> chain that validates
  the three kinds has no final \<open>else\<close>, so the request falls through to \<open>create_task\<close>
  with \<open>next_run\<close> still \<open>None\<close>.  The request below, of kind \<open>weekly\<close>, read from the
  main mailbox, is persisted.
\<close>

theorem unknown_schedule_kind_is_persisted:
  "\<not> spec_valid_schedule sample_env ''weekly'' ''monday'' \<and>
   map (\<lambda>t. (schedule_type t, schedule_value t))
     (tasks (process_task_file sample_env weekly_request ''main'' sample_state)) =
     [(''weekly'', ''monday'')]"
  by (simp add: ipc_defs weekly_request_def)

text \<open>
  For the three kinds the code knows, the claim holds: an invalid specification leaves the
  store as it was, by an early return or by an exception that sends the file to the error
  directory.
\<close>

lemma calculate_next_run_invalid:
  assumes k: "stype = ''cron'' \<or> stype = ''interval'' \<or> stype = ''once''"
    and nv: "\<not> spec_valid_schedule env stype sval" and ne: "sval \<noteq> []"
  shows "\<forall>nr. calculate_next_run env stype sval \<noteq> NextRun nr"
proof -
  consider (c) "stype = ''cron''" | (i) "stype = ''interval''" | (o) "stype = ''once''"
    using k by blast
  then show ?thesis
  proof cases
    case c
    with nv ne have "croniter_next env sval = None"
      by (simp add: spec_valid_schedule_def)
    with c show ?thesis by (simp add: calculate_next_run_def)
  next
    case i
    with nv ne have "case py_int env sval of None \<Rightarrow> True
                      | Some ms \<Rightarrow> \<not> (0 < ms \<and> timestamp_after_ms env ms \<noteq> None)"
      by (simp add: spec_valid_schedule_def split: option.splits)
    with i show ?thesis
      by (simp add: calculate_next_run_def split: option.splits) fastforce
  next
    case o
    with nv ne have "fromisoformat env sval = None"
      by (simp add: spec_valid_schedule_def)
    with o show ?thesis by (simp add: calculate_next_run_def)
  qed
qed

lemma invalid_known_schedule_not_persisted:
  assumes "data ''type'' = Some ''schedule_task''"
    and "data ''schedule_type'' = Some stype" and "data ''schedule_value'' = Some sval"
    and "stype = ''cron'' \<or> stype = ''interval'' \<or> stype = ''once''"
    and "\<not> spec_valid_schedule env stype sval"
  shows "process_task_file env data source_group s = s"
proof (cases "sval = []")
  case True
  then show ?thesis using assms(1-3)
    by (simp add: process_task_file_def dispatch_task_file_def process_task_ipc_def Let_def
        truthy_def)
next
  case False
  from calculate_next_run_invalid [OF assms(4,5) False]
  have "calculate_next_run env stype sval = Rejected \<or>
        (\<exists>e. calculate_next_run env stype sval = Raises e)"
    by (cases "calculate_next_run env stype sval") auto
  then show ?thesis using assms(1-3)
    by (auto simp: process_task_file_def dispatch_task_file_def process_task_ipc_def Let_def
        split: option.splits)
qed

subsection \<open>The job invariant (claim C4)\<close>

text \<open>
  Claim C4: for every job that the \<open>schedule_task\<close> creation path and the after-run
  update path can put in the store, \<open>next_run\<close> is null if and only if the job is a
  \<open>once\<close> job whose status is \<open>completed\<close>; in particular no job with status \<open>active\<close>
  has a null \<open>next_run\<close>.

  The code does not keep this, by the defect shown for C9: the job created for a request
  of an unrecognized kind has status \<open>active\<close> and a null \<open>next_run\<close>, and it is not a
  \<open>once\<close> job.
\<close>

theorem active_job_with_null_next_run:
  "map (\<lambda>t. (schedule_type t, status t, next_run t))
     (tasks (process_task_file sample_env weekly_request ''main'' sample_state)) =
     [(''weekly'', ''active'', None)] \<and>
   \<not> list_all job_inv (tasks (process_task_file sample_env weekly_request ''main'' sample_state))"
  by (simp add: ipc_defs weekly_request_def job_inv_def)

text \<open>
  For jobs of the three known kinds both paths keep the invariant: the creation path
  stores a job with a next run, and the after-run path (whose task is a snapshot of the
  row with its id) clears the next run only for a \<open>once\<close> job, which it marks completed.
\<close>

lemma calculate_next_run_known:
  assumes "known_kind stype" and "calculate_next_run env stype sval = NextRun nr"
  shows "nr \<noteq> None"
proof -
  consider (c) "stype = ''cron''" | (i) "stype = ''interval''" | (o) "stype = ''once''"
    using assms(1) by (auto simp: known_kind_def)
  then show ?thesis
  proof cases
    case c
    with assms(2) show ?thesis
      by (cases "croniter_next env sval") (auto simp: calculate_next_run_def)
  next
    case i
    show ?thesis
    proof (cases "py_int env sval")
      case None
      with i assms(2) show ?thesis by (simp add: calculate_next_run_def)
    next
      case ms: (Some ms)
      show ?thesis
      proof (cases "timestamp_after_ms env ms")
        case None
        with i ms assms(2) show ?thesis
          by (simp add: calculate_next_run_def split: if_splits)
      next
        case (Some n)
        with i ms assms(2) have "nr = Some n"
          by (simp add: calculate_next_run_def split: if_splits)
        then show ?thesis by simp
      qed
    qed
  next
    case o
    with assms(2) show ?thesis
      by (cases "fromisoformat env sval") (auto simp: calculate_next_run_def)
  qed
qed

lemma created_job_keeps_invariant:
  assumes "data ''type'' = Some ''schedule_task''"
    and "data ''schedule_type'' = Some stype" and "known_kind stype"
    and "list_all job_inv (tasks s)"
    and "dispatch_task_file env data source_group s = Inr s'"
  shows "list_all job_inv (tasks s')"
proof (cases "calculate_next_run env stype (the (data ''schedule_value''))")
  case Rejected
  with assms show ?thesis
    by (auto simp: dispatch_task_file_def process_task_ipc_def Let_def
        split: if_splits option.splits)
next
  case (Raises e)
  with assms show ?thesis
    by (auto simp: dispatch_task_file_def process_task_ipc_def Let_def
        split: if_splits option.splits)
next
  case (NextRun nr)
  with calculate_next_run_known [OF assms(3)] have "nr \<noteq> None" by blast
  with NextRun assms(1,2,4,5) show ?thesis
    by (auto simp: dispatch_task_file_def process_task_ipc_def Let_def create_task_def
        job_inv_def split: if_splits option.splits)
qed

lemma update_task_after_run_invariant:
  assumes "list_all job_inv db"
    and "nr = None \<longrightarrow> stype = ''once''" and "nr \<noteq> None \<longrightarrow> stype \<noteq> ''once''"
    and "\<forall>t \<in> set db. tid t = i \<longrightarrow> schedule_type t = stype"
  shows "list_all job_inv (update_task_after_run i nr res now db)"
  using assms
  by (auto simp: update_task_after_run_def job_inv_def list_all_iff)

lemma after_run_keeps_invariant:
  assumes "known_kind (schedule_type task)"
    and "list_all job_inv (tasks s)"
    and "\<forall>t \<in> set (tasks s). tid t = tid task \<longrightarrow> schedule_type t = schedule_type task"
    and "run_task_finish env task summary s = Inr s'"
  shows "list_all job_inv (tasks s')"
proof (cases "list_ex (\<lambda>(c, g). folder g = task_group_folder task) (registered s)")
  case False
  with assms(2,4) show ?thesis by (simp add: run_task_finish_def)
next
  case True
  note u = update_task_after_run_invariant [OF assms(2) _ _ assms(3)]
  consider (c) "schedule_type task = ''cron''" | (i) "schedule_type task = ''interval''"
    | (o) "schedule_type task = ''once''"
    using assms(1) by (auto simp: known_kind_def)
  then show ?thesis
  proof cases
    case c
    then obtain n where "tasks s' =
        update_task_after_run (tid task) (Some n) summary (now_iso env) (tasks s)"
      using assms(4) True by (auto simp: run_task_finish_def split: option.splits)
    then show ?thesis using u [of "Some n"] c by simp
  next
    case i
    then obtain n where "tasks s' =
        update_task_after_run (tid task) (Some n) summary (now_iso env) (tasks s)"
      using assms(4) True by (auto simp: run_task_finish_def split: option.splits)
    then show ?thesis using u [of "Some n"] i by simp
  next
    case o
    then have "tasks s' =
        update_task_after_run (tid task) None summary (now_iso env) (tasks s)"
      using assms(4) True by (auto simp: run_task_finish_def)
    then show ?thesis using u [of None] o by simp
  qed
qed

section \<open>Properties of the reader of worker output\<close>

lemmas reader_defs = read_container_output_def read_line_def process_line_def DEFAULT_LIMIT_def
  lines_within_limit_def init_reader_def no_output_def
  OUTPUT_START_def OUTPUT_END_def sample_reader_def sample_json_loads_def payload_def quoted_def
  success_def dict_get_def envelope_def block_ok_def plain_def lines_size_def last_or_def

lemma process_lines_append:
  "process_lines e st (xs @ ys) =
     (case process_lines e st xs of Inl err \<Rightarrow> Inl err | Inr st' \<Rightarrow> process_lines e st' ys)"
  by (induction xs arbitrary: st) (auto split: sum.splits)

lemma read_lines_within_limit:
  "lines_within_limit bs \<Longrightarrow> read_lines e st bs = process_lines e st (map (decode e) bs)"
  by (induction bs arbitrary: st)
     (auto simp: lines_within_limit_def read_line_def split: sum.splits)

lemma read_content:
  assumes "in_output st" and "plain ls"
    and "int (total_size st + lines_size ls) \<le> max_output_size e"
  shows "process_lines e st ls =
           Inr (st\<lparr>total_size := total_size st + lines_size ls, buffer := buffer st @ ls\<rparr>)"
  using assms
proof (induction ls arbitrary: st)
  case Nil
  then show ?case by (simp add: lines_size_def)
next
  case (Cons l ls)
  let ?st = "st\<lparr>total_size := total_size st + length l, buffer := buffer st @ [l]\<rparr>"
  have l: "l \<noteq> OUTPUT_START" "l \<noteq> OUTPUT_END" "plain ls"
    using Cons.prems(2) by (simp_all add: plain_def)
  have s: "int (total_size st + length l) \<le> max_output_size e"
    using Cons.prems(3) by (simp add: lines_size_def)
  have r: "process_line e st l = Inr ?st"
    using l s Cons.prems(1) by (simp add: process_line_def)
  have "process_lines e ?st ls =
          Inr (?st\<lparr>total_size := total_size ?st + lines_size ls, buffer := buffer ?st @ ls\<rparr>)"
    using Cons.prems l by (intro Cons.IH) (simp_all add: lines_size_def)
  then show ?case using r by (simp add: lines_size_def add.assoc)
qed

lemma read_start: "process_line e st OUTPUT_START = Inr (st\<lparr>in_output := True, buffer := []\<rparr>)"
  by (simp add: process_line_def)

lemma markers_differ: "OUTPUT_END \<noteq> OUTPUT_START"
  by (simp add: OUTPUT_START_def OUTPUT_END_def)

lemma read_noise:
  "\<not> in_output st \<Longrightarrow> l \<noteq> OUTPUT_START \<Longrightarrow> process_line e st l = Inr st"
  by (simp add: process_line_def)

lemma read_dangling:
  assumes "plain ls" and "int (total_size st + lines_size ls) \<le> max_output_size e"
  shows "process_lines e st (render (Dangling ls)) =
           Inr (st\<lparr>in_output := True, total_size := total_size st + lines_size ls, buffer := ls\<rparr>)"
proof -
  let ?st = "st\<lparr>in_output := True, buffer := []\<rparr>"
  have "process_lines e ?st ls =
          Inr (?st\<lparr>total_size := total_size ?st + lines_size ls, buffer := buffer ?st @ ls\<rparr>)"
    using assms by (intro read_content) simp_all
  then show ?thesis by (simp add: read_start)
qed

lemma read_block:
  assumes "plain ls" and "int (total_size st + lines_size ls) \<le> max_output_size e"
    and "block_ok e ls"
  shows "process_lines e st (render (Block ls)) =
           Inr (st\<lparr>in_output := False, total_size := total_size st + lines_size ls, buffer := ls,
                   final := (case envelope e ls of None \<Rightarrow> final st | Some out \<Rightarrow> out),
                   outputs := (case envelope e ls of None \<Rightarrow> outputs st
                               | Some out \<Rightarrow> if on_output e then outputs st @ [out] else outputs st)\<rparr>)"
proof -
  let ?st = "st\<lparr>in_output := True, total_size := total_size st + lines_size ls, buffer := ls\<rparr>"
  have d: "process_lines e st (OUTPUT_START # ls) = Inr ?st"
    using read_dangling [OF assms(1,2)] by simp
  have "process_line e ?st OUTPUT_END =
           Inr (st\<lparr>in_output := False, total_size := total_size st + lines_size ls, buffer := ls,
                   final := (case envelope e ls of None \<Rightarrow> final st | Some out \<Rightarrow> out),
                   outputs := (case envelope e ls of None \<Rightarrow> outputs st
                               | Some out \<Rightarrow> if on_output e then outputs st @ [out] else outputs st)\<rparr>)"
    using assms(3) markers_differ
    by (auto simp: process_line_def envelope_def block_ok_def split: option.splits sum.splits)
  then show ?thesis
    using d process_lines_append [of e st "OUTPUT_START # ls" "[OUTPUT_END]"] by simp
qed

lemma delivered_simps [simp]:
  "delivered e [] = []"
  "delivered e (Noise l # ss) = delivered e ss"
  "delivered e (Dangling ls # ss) = delivered e ss"
  "delivered e (Block ls # ss) =
     (case envelope e ls of None \<Rightarrow> delivered e ss
      | Some out \<Rightarrow> (if on_output e then [out] else []) @ delivered e ss)"
  by (simp_all add: delivered_def split: option.splits)

lemma read_segments:
  assumes "wf_segments segs" and "blocks_ok e segs"
    and "int (total_size st + content_size segs) \<le> max_output_size e"
    and "in_output st \<longrightarrow> \<not> starts_with_noise segs"
  shows "\<exists>st'. process_lines e st (concat (map render segs)) = Inr st' \<and>
           outputs st' = outputs st @ delivered e segs \<and>
           final st' = last_or (final st) (envelopes e segs)"
  using assms
proof (induction segs arbitrary: st)
  case Nil
  then show ?case by (simp add: last_or_def)
next
  case (Cons s segs)
  show ?case
  proof (cases s)
    case (Noise l)
    have n: "\<not> in_output st" "l \<noteq> OUTPUT_START"
      using Cons.prems(1,4) Noise by auto
    have "\<exists>st'. process_lines e st (concat (map render segs)) = Inr st' \<and>
           outputs st' = outputs st @ delivered e segs \<and>
           final st' = last_or (final st) (envelopes e segs)"
      using Cons.prems Noise n by (intro Cons.IH) simp_all
    then show ?thesis using Noise read_noise [OF n, of e] by simp
  next
    case (Block ls)
    let ?st = "st\<lparr>in_output := False, total_size := total_size st + lines_size ls, buffer := ls,
                   final := (case envelope e ls of None \<Rightarrow> final st | Some out \<Rightarrow> out),
                   outputs := (case envelope e ls of None \<Rightarrow> outputs st
                               | Some out \<Rightarrow> if on_output e then outputs st @ [out] else outputs st)\<rparr>"
    have b: "process_lines e st (render (Block ls)) = Inr ?st"
      using Cons.prems Block by (intro read_block) simp_all
    have "\<exists>st'. process_lines e ?st (concat (map render segs)) = Inr st' \<and>
           outputs st' = outputs ?st @ delivered e segs \<and>
           final st' = last_or (final ?st) (envelopes e segs)"
      using Cons.prems Block by (intro Cons.IH) (simp_all add: add.assoc)
    then obtain st' where st': "process_lines e ?st (concat (map render segs)) = Inr st'"
      "outputs st' = outputs ?st @ delivered e segs"
      "final st' = last_or (final ?st) (envelopes e segs)"
      by blast
    have r: "process_lines e st (concat (map render (s # segs))) = Inr st'"
      using Block b st'(1)
        process_lines_append [of e st "render (Block ls)" "concat (map render segs)"]
      by simp
    have o: "outputs st' = outputs st @ delivered e (s # segs)"
      using st'(2) Block by (simp split: option.splits)
    have f: "final st' = last_or (final st) (envelopes e (s # segs))"
      using st'(3) Block by (simp add: last_or_def split: option.splits)
    from r o f show ?thesis by blast
  next
    case (Dangling ls)
    let ?st = "st\<lparr>in_output := True, total_size := total_size st + lines_size ls, buffer := ls\<rparr>"
    have b: "process_lines e st (render (Dangling ls)) = Inr ?st"
      using Cons.prems Dangling by (intro read_dangling) simp_all
    have "\<exists>st'. process_lines e ?st (concat (map render segs)) = Inr st' \<and>
           outputs st' = outputs ?st @ delivered e segs \<and>
           final st' = last_or (final ?st) (envelopes e segs)"
      using Cons.prems Dangling by (intro Cons.IH) (simp_all add: add.assoc)
    then obtain st' where st': "process_lines e ?st (concat (map render segs)) = Inr st'"
      "outputs st' = outputs ?st @ delivered e segs"
      "final st' = last_or (final ?st) (envelopes e segs)"
      by blast
    have r: "process_lines e st (concat (map render (s # segs))) = Inr st'"
      using Dangling b st'(1)
        process_lines_append [of e st "render (Dangling ls)" "concat (map render segs)"]
      by simp
    from r st'(2,3) Dangling show ?thesis by simp
  qed
qed

subsection \<open>One envelope per well-formed block (claim C6)\<close>

text \<open>
  Claim C6: for every stream of blocks interleaved with noise lines the reader yields
  exactly one parsed envelope per well-formed block, in stream order, and calls
  \<open>on_output\<close> once for each; unmatched markers and blocks that are not valid JSON are
  skipped without failing the run; the returned result is the last envelope parsed, or the
  default \<open>No output received\<close> error when no block parses.

  As stated this fails, because the reader counts the characters of all blocks in one
  total that it never resets and abandons the block being read once the total is over the
  maximum.  With a maximum of 30, two well-formed blocks of 19 and 20 characters, each under
  the maximum and on lines far below the limit of \<open>readline\<close>, give one envelope: the second
  block is dropped and the returned result is the first envelope.
\<close>

theorem cumulative_cap_drops_second_block:
  "wf_segments two_blocks \<and> blocks_ok sample_reader two_blocks \<and>
   envelopes sample_reader two_blocks = [success ''first'', success ''second''] \<and>
   lines_within_limit (concat (map render two_blocks)) \<and>
   read_container_output sample_reader (concat (map render two_blocks)) =
     Inr \<lparr>final = success ''first'', buffer = [], in_output = False, total_size = 39,
          outputs = [success ''first'']\<rparr>"
  by (simp add: two_blocks_def reader_defs)

text \<open>
  Claim C6, amended: for every stream in which no line is longer than the limit of
  \<open>readline\<close> (64 KiB) and whose decoded lines are noise lines, blocks and unmatched markers
  with at most the maximum of characters between markers, and in which every block holds
  either text that is not JSON or a JSON object from which the envelope can be built, the
  reader returns normally; the envelopes passed to \<open>on_output\<close> are those of the blocks
  that parse, one each and in stream order, and the returned result is the last of them, or
  the default error when there is none.  (What the reader does with a longer line or with a
  block of valid JSON that is not such an object is left open here; see
  \<open>line_over_limit_fails\<close> and \<open>non_object_block_fails\<close>.)
\<close>

theorem reader_yields_envelopes_in_order:
  assumes "lines_within_limit stream"
    and "map (decode e) stream = concat (map render segs)"
    and "wf_segments segs" and "blocks_ok e segs"
    and "int (content_size segs) \<le> max_output_size e"
  shows "\<exists>st. read_container_output e stream = Inr st \<and>
           outputs st = delivered e segs \<and>
           final st = last_or no_output (envelopes e segs)"
  using read_segments [of segs e init_reader] assms(2-5)
    read_lines_within_limit [OF assms(1), of e init_reader]
  by (simp add: read_container_output_def init_reader_def)

theorem reader_yields_envelopes_in_order_witness:
  "lines_within_limit (concat (map render mixed_stream)) \<and>
   map (decode default_reader) (concat (map render mixed_stream)) =
     concat (map render mixed_stream) \<and>
   wf_segments mixed_stream \<and> blocks_ok default_reader mixed_stream \<and>
   int (content_size mixed_stream) \<le> max_output_size default_reader \<and>
   (\<exists>st. read_container_output default_reader (concat (map render mixed_stream)) = Inr st \<and>
         outputs st = [success ''first'', success ''second''] \<and>
         final st = success ''second'')"
proof -
  have h: "lines_within_limit (concat (map render mixed_stream))"
    "map (decode default_reader) (concat (map render mixed_stream)) =
       concat (map render mixed_stream)"
    "wf_segments mixed_stream" "blocks_ok default_reader mixed_stream"
    "int (content_size mixed_stream) \<le> max_output_size default_reader"
    by (simp_all add: mixed_stream_def default_reader_def reader_defs)
  have d: "delivered default_reader mixed_stream = [success ''first'', success ''second'']"
    "last_or no_output (envelopes default_reader mixed_stream) = success ''second''"
    by (simp_all add: mixed_stream_def default_reader_def reader_defs)
  from reader_yields_envelopes_in_order [OF h] obtain st where
    "read_container_output default_reader (concat (map render mixed_stream)) = Inr st"
    "outputs st = delivered default_reader mixed_stream"
    "final st = last_or no_output (envelopes default_reader mixed_stream)"
    by blast
  with d have "\<exists>st. read_container_output default_reader (concat (map render mixed_stream)) = Inr st \<and>
         outputs st = [success ''first'', success ''second''] \<and>
         final st = success ''second''"
    by metis
  with h show ?thesis by blast
qed

text \<open>
  Every stream is the rendering of a well-formed list of segments, so the statement covers
  every stream that meets the two conditions.
\<close>

lemma plain_takeWhile: "plain (takeWhile plain_line ls)"
  unfolding plain_def plain_line_def list_all_iff
  by (auto dest: set_takeWhileD)

lemma dropWhile_head_marker:
  "dropWhile plain_line ls = m # rest \<Longrightarrow> m = OUTPUT_START \<or> m = OUTPUT_END"
  using hd_dropWhile [of plain_line ls] by (auto simp: plain_line_def)

lemma segments_of_start_not_noise: "\<not> starts_with_noise (segments_of (OUTPUT_START # ls))"
  by (simp split: list.splits)

lemma segments_of_start_nil:
  assumes "dropWhile plain_line ls = []"
  shows "segments_of (OUTPUT_START # ls) = [Dangling ls]"
proof -
  have "takeWhile plain_line ls = ls"
    using takeWhile_dropWhile_id [of plain_line ls] assms by simp
  then show ?thesis using assms by (simp del: dropWhile_eq_Nil_conv)
qed

lemma segments_of_start_end:
  assumes "dropWhile plain_line ls = OUTPUT_END # rest"
  shows "segments_of (OUTPUT_START # ls) = Block (takeWhile plain_line ls) # segments_of rest"
  using assms by simp

lemma segments_of_start_start:
  assumes "dropWhile plain_line ls = m # rest" and "m \<noteq> OUTPUT_END"
  shows "segments_of (OUTPUT_START # ls) =
           Dangling (takeWhile plain_line ls) # segments_of (m # rest)"
  using assms by (simp del: segments_of.simps add: segments_of.simps(2) [of OUTPUT_START ls])

lemma segments_of_noise:
  "l \<noteq> OUTPUT_START \<Longrightarrow> segments_of (l # ls) = Noise l # segments_of ls"
  by simp

lemma render_segments_of: "concat (map render (segments_of ls)) = ls"
proof (induction ls rule: segments_of.induct)
  case 1
  show ?case by simp
next
  case (2 l ls)
  show ?case
  proof (cases "l = OUTPUT_START")
    case False
    with 2 show ?thesis by simp
  next
    case True
    have sp: "takeWhile plain_line ls @ dropWhile plain_line ls = ls" by simp
    show ?thesis
    proof (cases "dropWhile plain_line ls")
      case Nil
      show ?thesis unfolding True segments_of_start_nil [OF Nil] by simp
    next
      case (Cons m rest)
      show ?thesis
      proof (cases "m = OUTPUT_END")
        case e: True
        have ih: "concat (map render (segments_of rest)) = rest"
          using "2.IH"(1) [OF True Cons e] .
        have d: "dropWhile plain_line ls = OUTPUT_END # rest" using Cons e by simp
        have "ls = takeWhile plain_line ls @ OUTPUT_END # rest"
          using sp d by simp
        then show ?thesis
          unfolding True segments_of_start_end [OF d] using ih by simp
      next
        case e: False
        have ih: "concat (map render (segments_of (m # rest))) = m # rest"
          using "2.IH"(2) [OF True Cons e] .
        have "ls = takeWhile plain_line ls @ m # rest"
          using sp Cons by simp
        then show ?thesis
          unfolding True segments_of_start_start [OF Cons e] using ih
          by (simp del: segments_of.simps)
      qed
    qed
  qed
qed

lemma wf_segments_of: "wf_segments (segments_of ls)"
proof (induction ls rule: segments_of.induct)
  case 1
  show ?case by simp
next
  case (2 l ls)
  show ?case
  proof (cases "l = OUTPUT_START")
    case False
    with 2 show ?thesis by simp
  next
    case True
    show ?thesis
    proof (cases "dropWhile plain_line ls")
      case Nil
      have "\<forall>x\<in>set ls. plain_line x" using Nil by simp
      then have "plain ls" by (simp add: plain_def plain_line_def list_all_iff)
      then show ?thesis unfolding True segments_of_start_nil [OF Nil] by simp
    next
      case (Cons m rest)
      show ?thesis
      proof (cases "m = OUTPUT_END")
        case e: True
        have d: "dropWhile plain_line ls = OUTPUT_END # rest" using Cons e by simp
        show ?thesis
          unfolding True segments_of_start_end [OF d]
          using "2.IH"(1) [OF True Cons e] by (simp add: plain_takeWhile)
      next
        case e: False
        with dropWhile_head_marker [OF Cons] have m: "m = OUTPUT_START" by simp
        have "wf_segments (segments_of (m # rest))"
          using "2.IH"(2) [OF True Cons e] .
        moreover have "\<not> starts_with_noise (segments_of (m # rest))"
          unfolding m by (rule segments_of_start_not_noise)
        ultimately show ?thesis
          unfolding True segments_of_start_start [OF Cons e]
          by (simp del: segments_of.simps add: plain_takeWhile)
      qed
    qed
  qed
qed

corollary reader_on_every_stream:
  assumes "lines_within_limit stream"
    and "blocks_ok e (segments_of (map (decode e) stream))"
    and "int (content_size (segments_of (map (decode e) stream))) \<le> max_output_size e"
  shows "\<exists>st. read_container_output e stream = Inr st \<and>
           outputs st = delivered e (segments_of (map (decode e) stream)) \<and>
           final st = last_or no_output (envelopes e (segments_of (map (decode e) stream)))"
  using read_segments [of "segments_of (map (decode e) stream)" e init_reader] assms(2,3)
    wf_segments_of [of "map (decode e) stream"]
    read_lines_within_limit [OF assms(1), of e init_reader]
  by (simp add: read_container_output_def init_reader_def render_segments_of)

text \<open>
  A line of more than 64 KiB makes the reader raise, wherever it stands in the stream and
  whatever follows it: the \<open>ValueError\<close> of \<open>readline\<close> is not caught, and no result is
  returned.
\<close>

lemma read_lines_append:
  "read_lines e st (xs @ ys) =
     (case read_lines e st xs of Inl err \<Rightarrow> Inl err | Inr st' \<Rightarrow> read_lines e st' ys)"
  by (induction xs arbitrary: st) (auto split: sum.splits)

lemma line_over_limit_fails:
  assumes "read_lines e st bs = Inr st'" and "length b > DEFAULT_LIMIT"
  shows "read_lines e st (bs @ b # rest) = Inl LimitValueError"
  using assms by (simp add: read_lines_append read_line_def)

lemma long_line_fails:
  "read_container_output default_reader
     (render (Block [payload ''first'']) @ [replicate 65537 CHR ''x'']) = Inl LimitValueError"
  by (simp add: default_reader_def reader_defs)

text \<open>
  A block of valid JSON that is not an object makes the reader raise: \<open>AttributeError\<close>
  is not caught.
\<close>

lemma non_object_block_fails:
  "read_container_output sample_reader [OUTPUT_START, ''42'', OUTPUT_END] = Inl AttributeError"
  by (simp add: reader_defs)

subsection \<open>The size cap (claim C7)\<close>

text \<open>
  Claim C7: when the characters accumulated inside marker blocks exceed the maximum, only
  the block being read is abandoned (its envelope is neither parsed nor passed to
  \<open>on_output\<close>); the reader resumes scanning for the next begin marker, every later
  well-formed block is still parsed and forwarded, and the cap never ends the run or makes
  the reader fail.

  As stated this fails: the total is never reset, so the first content line of every later
  block finds it over the maximum and the block is abandoned too.  With a maximum of 30, a
  block of 40 characters followed by a well-formed block of 20 characters, all on lines far
  below the limit of \<open>readline\<close>, gives no envelope at all.
\<close>

theorem block_after_oversize_block_dropped:
  "envelope sample_reader [payload ''second''] = Some (success ''second'') \<and>
   lines_within_limit (concat (map render oversize_then_block)) \<and>
   read_container_output sample_reader (concat (map render oversize_then_block)) =
     Inr \<lparr>final = no_output, buffer = [], in_output = False, total_size = 60, outputs = []\<rparr>"
  by (simp add: oversize_then_block_def reader_defs)

lemma truncated_line:
  assumes "truncated e st" and "json_loads e [] = None"
  shows "\<exists>st'. process_line e st l = Inr st' \<and> truncated e st' \<and>
           final st' = final st \<and> outputs st' = outputs st"
  using assms by (auto simp: process_line_def truncated_def)

lemma truncated_lines:
  assumes "truncated e st" and "json_loads e [] = None"
  shows "\<exists>st'. process_lines e st ls = Inr st' \<and> truncated e st' \<and>
           final st' = final st \<and> outputs st' = outputs st"
  using assms
proof (induction ls arbitrary: st)
  case Nil
  then show ?case by simp
next
  case (Cons l ls)
  from truncated_line [OF Cons.prems, of l] obtain st1 where
    s: "process_line e st l = Inr st1" "truncated e st1" "final st1 = final st"
       "outputs st1 = outputs st"
    by blast
  from Cons.IH [OF s(2) Cons.prems(2)] s show ?case by auto
qed

text \<open>
  Claim C7, amended: when a line read inside a block takes the accumulated size over the
  maximum, the reader stops accumulating that block (it is neither parsed nor forwarded),
  and, provided no line of the stream is longer than the limit of \<open>readline\<close> (64 KiB), it
  reads the rest of the stream, whatever it holds, without failing and without ending
  early; the envelopes passed to \<open>on_output\<close> and the returned result are those of that
  moment, so no later block is parsed or forwarded either.  (The hypothesis on
  \<open>json.loads\<close> says that it rejects the empty text, which is what an end marker right
  after a begin marker gives it.)
\<close>

theorem oversize_block_abandoned:
  assumes "in_output st"
    and "decode e b \<noteq> OUTPUT_START" and "decode e b \<noteq> OUTPUT_END"
    and "int (total_size st + length (decode e b)) > max_output_size e"
    and "json_loads e [] = None"
    and "lines_within_limit (b # rest)"
  shows "read_line e st b =
           Inr (st\<lparr>total_size := total_size st + length (decode e b), in_output := False\<rparr>) \<and>
         (\<exists>st'. read_lines e st (b # rest) = Inr st' \<and>
                final st' = final st \<and> outputs st' = outputs st)"
proof -
  let ?st = "st\<lparr>total_size := total_size st + length (decode e b), in_output := False\<rparr>"
  have w: "length b \<le> DEFAULT_LIMIT" "lines_within_limit rest"
    using assms(6) by (simp_all add: lines_within_limit_def)
  have r: "read_line e st b = Inr ?st"
    using assms(1-4) w(1) by (simp add: read_line_def process_line_def)
  have "truncated e ?st" using assms(4) by (simp add: truncated_def)
  from truncated_lines [OF this assms(5), of "map (decode e) rest"] obtain st' where
    "process_lines e ?st (map (decode e) rest) = Inr st'" "final st' = final ?st"
    "outputs st' = outputs ?st"
    by blast
  then have "read_lines e ?st rest = Inr st' \<and> final st' = final st \<and> outputs st' = outputs st"
    using read_lines_within_limit [OF w(2), of e ?st] by simp
  with r show ?thesis by auto
qed

theorem oversize_block_abandoned_witness:
  "in_output (init_reader\<lparr>in_output := True\<rparr>) \<and>
   int (total_size (init_reader\<lparr>in_output := True\<rparr>) +
        length (decode sample_reader ''xxxxxxxxxxxxxxxxxxxxxxxxxxxxxxxxxxxxxxxx'')) >
     max_output_size sample_reader \<and>
   json_loads sample_reader [] = None \<and>
   lines_within_limit
     (''xxxxxxxxxxxxxxxxxxxxxxxxxxxxxxxxxxxxxxxx'' # OUTPUT_END # render (Block [payload ''second''])) \<and>
   (\<exists>st'. read_lines sample_reader (init_reader\<lparr>in_output := True\<rparr>)
            (''xxxxxxxxxxxxxxxxxxxxxxxxxxxxxxxxxxxxxxxx'' # OUTPUT_END # render (Block [payload ''second''])) = Inr st' \<and>
          final st' = no_output \<and> outputs st' = [])"
proof -
  let ?st = "init_reader\<lparr>in_output := True\<rparr>"
  let ?l = "''xxxxxxxxxxxxxxxxxxxxxxxxxxxxxxxxxxxxxxxx''"
  have h: "in_output ?st" "decode sample_reader ?l \<noteq> OUTPUT_START"
    "decode sample_reader ?l \<noteq> OUTPUT_END"
    "int (total_size ?st + length (decode sample_reader ?l)) > max_output_size sample_reader"
    "json_loads sample_reader [] = None"
    "lines_within_limit (?l # OUTPUT_END # render (Block [payload ''second'']))"
    by (simp_all add: reader_defs)
  from oversize_block_abandoned [OF h]
  obtain st' where s: "read_lines sample_reader ?st
            (?l # OUTPUT_END # render (Block [payload ''second''])) = Inr st'"
    "final st' = final ?st" "outputs st' = outputs ?st"
    by blast
  have f: "final ?st = no_output" "outputs ?st = []"
    by (simp_all add: init_reader_def)
  from s f have "\<exists>st'. read_lines sample_reader ?st
            (?l # OUTPUT_END # render (Block [payload ''second''])) = Inr st' \<and>
          final st' = no_output \<and> outputs st' = []"
    by metis
  with h(1,4,5,6) show ?thesis by blast
qed

section \<open>Properties of the mount validator\<close>

lemmas mount_defs = validate_mount_def sample_host_def rw_mount_def is_valid_container_path_def
  find_allowed_root_def py_isspace_def to_validated_def py_or_bool_def rejected_def Let_def

lemma to_validated_readonly: "vm_readonly (to_validated r)"
  by (simp add: to_validated_def py_or_bool_def split: option.splits bool.splits)

lemma validated_member:
  "m \<in> set mounts \<Longrightarrow> allowed (validate_mount h m is_main) \<Longrightarrow>
     to_validated (validate_mount h m is_main) \<in>
       set (validate_additional_mounts h mounts group_name is_main)"
  by (induction mounts) auto

subsection \<open>Validated mounts are read-only (claim C10)\<close>

text \<open>
  Claim C10: for every list of requested mounts, every group and both values of
  \<open>is_main\<close>, every \<open>ValidatedMount\<close> returned by \<open>validate_additional_mounts\<close> has
  \<open>readonly = True\<close>; a requested read-write mount is emitted read-only even when the
  matched root allows read-write, the requester is the main group and \<open>validate_mount\<close>
  computed \<open>effective_readonly = False\<close>.

  Both parts hold, for any host and allowlist: \<open>effective_readonly or True\<close> is \<open>True\<close>
  whatever \<open>validate_mount\<close> computed, and the \<open>--mount\<close> argument built from such a mount
  ends in \<open>,readonly\<close>.
\<close>

theorem validated_mounts_always_readonly:
  "(\<forall>vm \<in> set (validate_additional_mounts h mounts group_name is_main). vm_readonly vm) \<and>
   (\<forall>m \<in> set mounts.
      allowed (validate_mount h m is_main) \<and>
      effective_readonly (validate_mount h m is_main) = Some False \<longrightarrow>
      (\<exists>vm \<in> set (validate_additional_mounts h mounts group_name is_main).
         vm = to_validated (validate_mount h m is_main) \<and> vm_readonly vm \<and>
         mount_argument vm =
           ''type=bind,src='' @ vm_host_path vm @ '',dst='' @ vm_container_path vm @ '',readonly''))"
proof (intro conjI ballI impI)
  fix vm
  assume "vm \<in> set (validate_additional_mounts h mounts group_name is_main)"
  then show "vm_readonly vm"
    by (induction mounts) (auto simp: to_validated_readonly split: if_splits)
next
  fix m
  assume m: "m \<in> set mounts"
    and a: "allowed (validate_mount h m is_main) \<and>
            effective_readonly (validate_mount h m is_main) = Some False"
  let ?vm = "to_validated (validate_mount h m is_main)"
  have "?vm \<in> set (validate_additional_mounts h mounts group_name is_main)"
    using m a by (simp add: validated_member)
  moreover have "vm_readonly ?vm" by (rule to_validated_readonly)
  ultimately show "\<exists>vm \<in> set (validate_additional_mounts h mounts group_name is_main).
         vm = ?vm \<and> vm_readonly vm \<and>
         mount_argument vm =
           ''type=bind,src='' @ vm_host_path vm @ '',dst='' @ vm_container_path vm @ '',readonly''"
    by (simp add: mount_argument_def)
qed

theorem validated_mounts_always_readonly_witness:
  "rw_mount \<in> set [rw_mount] \<and>
   \<not> readonly rw_mount \<and>
   allowed (validate_mount sample_host rw_mount True) \<and>
   effective_readonly (validate_mount sample_host rw_mount True) = Some False \<and>
   validate_additional_mounts sample_host [rw_mount] ''Main'' True =
     [\<lparr>vm_host_path = ''/home/user/projects/app'', vm_container_path = ''/workspace/extra/app'',
       vm_readonly = True\<rparr>] \<and>
   vm_readonly (to_validated (validate_mount sample_host rw_mount True))"
proof -
  have v: "validate_mount sample_host rw_mount True =
             \<lparr>allowed = True, reason = AllowedUnder ''/home/user/projects'',
              real_host_path = Some ''/home/user/projects/app'',
              resolved_container_path = Some ''app'', effective_readonly = Some False\<rparr>"
    by (simp add: mount_defs)
  have s: "validate_additional_mounts sample_host [rw_mount] ''Main'' True =
             [to_validated (validate_mount sample_host rw_mount True)]"
    by (simp add: v)
  have r: "\<not> readonly rw_mount" "rw_mount \<in> set [rw_mount]"
    by (simp_all add: rw_mount_def)
  from validated_mounts_always_readonly [of sample_host "[rw_mount]" "''Main''" True]
  have "\<forall>vm \<in> set (validate_additional_mounts sample_host [rw_mount] ''Main'' True). vm_readonly vm"
    by blast
  then have t: "vm_readonly (to_validated (validate_mount sample_host rw_mount True))"
    unfolding s by simp
  have f: "vm_host_path (to_validated (validate_mount sample_host rw_mount True)) =
             ''/home/user/projects/app''"
    "vm_container_path (to_validated (validate_mount sample_host rw_mount True)) =
             ''/workspace/extra/app''"
    by (simp_all add: v to_validated_def)
  have "to_validated (validate_mount sample_host rw_mount True) =
          \<lparr>vm_host_path = ''/home/user/projects/app'', vm_container_path = ''/workspace/extra/app'',
           vm_readonly = True\<rparr>"
    using t f by (cases "to_validated (validate_mount sample_host rw_mount True)") simp
  with s t r v show ?thesis by simp
qed

end
